theory Spec2Isabelle
  imports Complex_Main "HOL-Library.Word"
begin

unbundle bit_operations_syntax

section \<open>Strings and numbers\<close>

text \<open>
  A JavaScript string is a sequence of code units. The model uses \<^typ>\<open>string\<close>, whose
  characters are the code units 0..255, so it covers the strings over Latin-1 (all the
  payloads, which are base64 text, and all the literals of the program are of this kind).
  Numbers that the program uses as indices, positions and scores are integers, time stamps
  (the readings of \<open>Date.now()\<close>) are natural numbers.
\<close>

definition rel_index :: "int \<Rightarrow> nat \<Rightarrow> nat" where
  \<comment> \<open>the relative index of \<open>String.prototype.slice\<close> and \<open>Array.prototype.splice\<close>:
      a negative index counts from the end, and the result is clamped to \<open>0..len\<close>\<close>
  "rel_index i len = (if i < 0 then nat (max (int len + i) 0) else min (nat i) len)"

definition js_slice :: "'a list \<Rightarrow> int \<Rightarrow> int \<Rightarrow> 'a list" where
  \<comment> \<open>\<open>text.slice(start, end)\<close>\<close>
  "js_slice s a b =
     (let from = rel_index a (length s); to = rel_index b (length s)
      in take (to - from) (drop from s))"

definition js_slice_from :: "'a list \<Rightarrow> int \<Rightarrow> 'a list" where
  \<comment> \<open>\<open>text.slice(start)\<close>\<close>
  "js_slice_from s a = drop (rel_index a (length s)) s"


definition digit_char :: "nat \<Rightarrow> char" where
  \<comment> \<open>the digits \<open>0..9\<close> and \<open>a..f\<close>\<close>
  "digit_char d = ''0123456789abcdef'' ! d"

function to_digits :: "nat \<Rightarrow> nat \<Rightarrow> string" where
  \<comment> \<open>\<open>Number.prototype.toString(radix)\<close> on a non-negative integer, for a radix from 2 to 16\<close>
  "to_digits b n =
     (if b < 2 \<or> n < b then [digit_char n]
      else to_digits b (n div b) @ [digit_char (n mod b)])"
  by pat_completeness auto
termination
  by (relation "measure snd") auto

declare to_digits.simps [simp del]

definition decimal :: "nat \<Rightarrow> string" where
  \<comment> \<open>a number in a template literal: \<open>`${n}`\<close>\<close>
  "decimal n = to_digits 10 n"

section \<open>Data model (types.ts)\<close>

datatype priority = Urgent | High | Medium | Low

datatype status = NotStarted | InProgress | Paused | Done

datatype attachment_type = Link | Image | File

record subnote =
  note_id :: string
  note_content :: string
  note_createdAt :: nat

record subtask =
  subtask_id :: string
  subtask_title :: string
  subtask_completed :: bool
  subtask_createdAt :: nat

record attachment =
  att_id :: string
  att_type :: attachment_type
  att_name :: string
  att_url :: string
  att_size :: "nat option"
  att_mimeType :: "string option"
  att_createdAt :: nat

record tag =
  tag_id :: string
  tag_name :: string
  tag_color :: string

record task =
  \<comment> \<open>\<open>status\<close> is \<open>None\<close> in a task whose status is \<open>undefined\<close>, which an update can
      write\<close>
  task_id :: string
  task_title :: string
  task_description :: "string option"
  task_priority :: priority
  task_status :: "status option"
  task_notes :: "subnote list"
  task_subtasks :: "subtask list"
  task_attachments :: "attachment list"
  task_tags :: "string list"
  task_columnId :: string
  task_order :: int
  task_createdAt :: nat
  task_completedAt :: "nat option"

record column =
  col_id :: string
  col_title :: string
  col_order :: int

record board =
  columns :: "column list"
  tasks :: "task list"
  tags :: "tag list"

definition TAG_COLORS :: "string list" where
  "TAG_COLORS = [''#ef4444'', ''#f97316'', ''#eab308'', ''#22c55e'',
                 ''#06b6d4'', ''#3b82f6'', ''#8b5cf6'', ''#ec4899'']"

definition defaultTags :: "tag list" where
  "defaultTags =
     [\<lparr>tag_id = ''tag-1'', tag_name = ''Bug'', tag_color = TAG_COLORS ! 0\<rparr>,
      \<lparr>tag_id = ''tag-2'', tag_name = ''Feature'', tag_color = TAG_COLORS ! 4\<rparr>,
      \<lparr>tag_id = ''tag-3'', tag_name = ''Urgent'', tag_color = TAG_COLORS ! 1\<rparr>,
      \<lparr>tag_id = ''tag-4'', tag_name = ''Design'', tag_color = TAG_COLORS ! 6\<rparr>]"

definition defaultColumns :: "column list" where
  "defaultColumns =
     [\<lparr>col_id = ''col-1'', col_title = ''To Do'', col_order = 0\<rparr>,
      \<lparr>col_id = ''col-2'', col_title = ''In Progress'', col_order = 1\<rparr>,
      \<lparr>col_id = ''col-3'', col_title = ''Done'', col_order = 2\<rparr>]"

definition defaultState :: board where
  "defaultState = \<lparr>columns = defaultColumns, tasks = [], tags = defaultTags\<rparr>"

section \<open>Board store: the mutations of useDatabase\<close>

text \<open>
  Every mutation reads the current board and hands the next board to \<open>saveState\<close>; the
  model returns the next board. A reading of \<open>Date.now()\<close> is an argument. Where a
  mutation reads the clock once for every task it visits, the argument is a function
  from the position of the task in the list to the reading taken there.
\<close>

record task_updates =
  \<comment> \<open>\<open>Partial<Task>\<close>: \<open>None\<close> is a key that is absent. For the status and for the
      two optional fields of a task the key can also be present with the value
      \<open>undefined\<close>, which the spread copies into the task; for the other fields a key
      that is present has a value of the type of the field.\<close>
  u_id :: "string option"
  u_title :: "string option"
  u_description :: "string option option"
  u_priority :: "priority option"
  u_status :: "status option option"
  u_notes :: "subnote list option"
  u_subtasks :: "subtask list option"
  u_attachments :: "attachment list option"
  u_tags :: "string list option"
  u_columnId :: "string option"
  u_order :: "int option"
  u_createdAt :: "nat option"
  u_completedAt :: "nat option option"

definition no_updates :: task_updates where
  \<comment> \<open>the object \<open>{}\<close>\<close>
  "no_updates =
     \<lparr>u_id = None, u_title = None, u_description = None, u_priority = None,
      u_status = None, u_notes = None, u_subtasks = None, u_attachments = None,
      u_tags = None, u_columnId = None, u_order = None, u_createdAt = None,
      u_completedAt = None\<rparr>"

definition override :: "'a \<Rightarrow> 'a option \<Rightarrow> 'a" where
  "override old new = (case new of None \<Rightarrow> old | Some v \<Rightarrow> v)"

definition merge_updates :: "task \<Rightarrow> task_updates \<Rightarrow> task" where
  \<comment> \<open>\<open>{ ...task, ...updates }\<close>\<close>
  "merge_updates t u =
     \<lparr>task_id = override (task_id t) (u_id u),
      task_title = override (task_title t) (u_title u),
      task_description = override (task_description t) (u_description u),
      task_priority = override (task_priority t) (u_priority u),
      task_status = override (task_status t) (u_status u),
      task_notes = override (task_notes t) (u_notes u),
      task_subtasks = override (task_subtasks t) (u_subtasks u),
      task_attachments = override (task_attachments t) (u_attachments u),
      task_tags = override (task_tags t) (u_tags u),
      task_columnId = override (task_columnId t) (u_columnId u),
      task_order = override (task_order t) (u_order u),
      task_createdAt = override (task_createdAt t) (u_createdAt u),
      task_completedAt = override (task_completedAt t) (u_completedAt u)\<rparr>"

definition map_indexed :: "(nat \<Rightarrow> 'a \<Rightarrow> 'b) \<Rightarrow> 'a list \<Rightarrow> 'b list" where
  \<comment> \<open>\<open>xs.map((x, index) => ...)\<close>\<close>
  "map_indexed f xs = map (\<lambda>(i, x). f i x) (enumerate 0 xs)"

definition addColumn :: "nat \<Rightarrow> string \<Rightarrow> board \<Rightarrow> board" where
  "addColumn now title state =
     (let newColumn = \<lparr>col_id = ''col-'' @ decimal now, col_title = title,
                        col_order = int (length (columns state))\<rparr>
      in state\<lparr>columns := columns state @ [newColumn]\<rparr>)"

definition updateColumn :: "string \<Rightarrow> string \<Rightarrow> board \<Rightarrow> board" where
  "updateColumn columnId title state =
     state\<lparr>columns := map (\<lambda>col. if col_id col = columnId then col\<lparr>col_title := title\<rparr> else col)
                             (columns state)\<rparr>"

definition deleteColumn :: "string \<Rightarrow> board \<Rightarrow> board" where
  "deleteColumn columnId state =
     state\<lparr>columns := filter (\<lambda>col. col_id col \<noteq> columnId) (columns state),
           tasks := filter (\<lambda>task. task_columnId task \<noteq> columnId) (tasks state)\<rparr>"

definition new_task :: "nat \<Rightarrow> nat \<Rightarrow> string \<Rightarrow> string \<Rightarrow> board \<Rightarrow> task" where
  \<comment> \<open>the object \<open>newTask\<close> of \<open>addTask\<close>; the clock is read for the id and again for
      \<open>createdAt\<close>\<close>
  "new_task now now' columnId title state =
     (let columnTasks = filter (\<lambda>t. task_columnId t = columnId) (tasks state)
      in \<lparr>task_id = ''task-'' @ decimal now, task_title = title, task_description = None,
          task_priority = Medium, task_status = Some NotStarted, task_notes = [],
          task_subtasks = [], task_attachments = [], task_tags = [],
          task_columnId = columnId, task_order = int (length columnTasks),
          task_createdAt = now', task_completedAt = None\<rparr>)"

definition addTask :: "nat \<Rightarrow> nat \<Rightarrow> string \<Rightarrow> string \<Rightarrow> board \<Rightarrow> board" where
  "addTask now now' columnId title state =
     state\<lparr>tasks := tasks state @ [new_task now now' columnId title state]\<rparr>"

definition update_one :: "nat \<Rightarrow> task_updates \<Rightarrow> task \<Rightarrow> task" where
  \<comment> \<open>the body of the \<open>if (task.id === taskId)\<close> branch of \<open>updateTask\<close>\<close>
  "update_one now updates task =
     (let updated = merge_updates task updates
      in if u_status updates = Some (Some Done) \<and> task_status task \<noteq> Some Done
         then updated\<lparr>task_completedAt := Some now\<rparr>
         else if u_status updates \<noteq> None \<and> u_status updates \<noteq> Some None
                 \<and> u_status updates \<noteq> Some (Some Done)
         then updated\<lparr>task_completedAt := None\<rparr>
         else updated)"

definition updateTask :: "(nat \<Rightarrow> nat) \<Rightarrow> string \<Rightarrow> task_updates \<Rightarrow> board \<Rightarrow> board" where
  "updateTask now taskId updates state =
     state\<lparr>tasks := map_indexed
                       (\<lambda>i task. if task_id task = taskId then update_one (now i) updates task
                                  else task)
                       (tasks state)\<rparr>"

definition deleteTask :: "string \<Rightarrow> board \<Rightarrow> board" where
  "deleteTask taskId state =
     state\<lparr>tasks := filter (\<lambda>task. task_id task \<noteq> taskId) (tasks state)\<rparr>"


definition reorderColumns :: "column list \<Rightarrow> board \<Rightarrow> board" where
  "reorderColumns cols state = state\<lparr>columns := cols\<rparr>"

definition set_status_one :: "nat \<Rightarrow> status \<Rightarrow> task \<Rightarrow> task" where
  \<comment> \<open>the body of the \<open>if (task.columnId === columnId)\<close> branch of
      \<open>setColumnTasksStatus\<close>\<close>
  "set_status_one now st task =
     (let updated = task\<lparr>task_status := Some st\<rparr>
      in if st = Done \<and> task_status task \<noteq> Some Done
         then updated\<lparr>task_completedAt := Some now\<rparr>
         else if st \<noteq> Done
         then updated\<lparr>task_completedAt := None\<rparr>
         else updated)"

definition setColumnTasksStatus :: "(nat \<Rightarrow> nat) \<Rightarrow> string \<Rightarrow> status \<Rightarrow> board \<Rightarrow> board" where
  "setColumnTasksStatus now columnId st state =
     state\<lparr>tasks := map_indexed
                       (\<lambda>i task. if task_columnId task = columnId
                                  then set_status_one (now i) st task else task)
                       (tasks state)\<rparr>"

definition setColumnTasksPriority :: "string \<Rightarrow> priority \<Rightarrow> board \<Rightarrow> board" where
  "setColumnTasksPriority columnId p state =
     state\<lparr>tasks := map (\<lambda>task. if task_columnId task = columnId
                                 then task\<lparr>task_priority := p\<rparr> else task)
                         (tasks state)\<rparr>"

definition addTag :: "nat \<Rightarrow> string \<Rightarrow> string \<Rightarrow> board \<Rightarrow> board" where
  "addTag now name color state =
     (let newTag = \<lparr>tag_id = ''tag-'' @ decimal now, tag_name = name, tag_color = color\<rparr>
      in state\<lparr>tags := tags state @ [newTag]\<rparr>)"

definition deleteTag :: "string \<Rightarrow> board \<Rightarrow> board" where
  "deleteTag tagId state =
     state\<lparr>tags := filter (\<lambda>tag. tag_id tag \<noteq> tagId) (tags state),
           tasks := map (\<lambda>task. task\<lparr>task_tags := filter (\<lambda>i. i \<noteq> tagId) (task_tags task)\<rparr>)
                        (tasks state)\<rparr>"

section \<open>Search: highlighting (fuzzySearch.ts)\<close>

record segment =
  seg_text :: string
  highlight :: bool

fun highlight_loop ::
  "string \<Rightarrow> (int \<times> int) list \<Rightarrow> segment list \<times> int \<Rightarrow> segment list \<times> int" where
  \<comment> \<open>the \<open>for (const [start, end] of indices)\<close> loop; the state is \<open>(result, lastEnd)\<close>\<close>
  "highlight_loop text [] st = st"
| "highlight_loop text ((start, end) # rest) (result, lastEnd) =
     highlight_loop text rest
       ((if start > lastEnd
         then result @ [\<lparr>seg_text = js_slice text lastEnd start, highlight = False\<rparr>]
         else result)
        @ [\<lparr>seg_text = js_slice text start end, highlight = True\<rparr>],
        end)"

definition highlightMatches :: "string \<Rightarrow> (int \<times> int) list \<Rightarrow> segment list" where
  "highlightMatches text indices =
     (if indices = [] then [\<lparr>seg_text = text, highlight = False\<rparr>]
      else
        (case highlight_loop text indices ([], 0) of
           (result, lastEnd) \<Rightarrow>
             if lastEnd < int (length text)
             then result @ [\<lparr>seg_text = js_slice_from text lastEnd, highlight = False\<rparr>]
             else result))"

fun ordered_from :: "int \<Rightarrow> (int \<times> int) list \<Rightarrow> bool" where
  \<comment> \<open>the ranges are well formed, ascending and do not overlap, the first one starting
      at or after the given position\<close>
  "ordered_from l [] = True"
| "ordered_from l ((s, e) # rest) = (l \<le> s \<and> s \<le> e \<and> ordered_from e rest)"

section \<open>Search: scoring (fuzzySearch.ts)\<close>

subsection \<open>String primitives\<close>

definition lower_char :: "char \<Rightarrow> char" where
  \<comment> \<open>\<open>toLowerCase\<close> on one code unit of Latin-1: the letters A..Z, and the accented
      capitals 192..222 without the multiplication sign 215\<close>
  "lower_char c =
     (let n = of_char c :: nat
      in if (65 \<le> n \<and> n \<le> 90) \<or> (192 \<le> n \<and> n \<le> 222 \<and> n \<noteq> 215)
         then char_of (n + 32) else c)"

definition toLowerCase :: "string \<Rightarrow> string" where
  "toLowerCase s = map lower_char s"

definition is_space :: "char \<Rightarrow> bool" where
  \<comment> \<open>the class \<open>\s\<close>, which is also what \<open>trim\<close> removes: tab, line feed, vertical tab,
      form feed, carriage return, space, no-break space\<close>
  "is_space c = (of_char c \<in> {9, 10, 11, 12, 13, 32, 160 :: nat})"

definition is_word_char :: "char \<Rightarrow> bool" where
  \<comment> \<open>the class \<open>\w\<close>: \<open>[A-Za-z0-9_]\<close>\<close>
  "is_word_char c =
     (let n = of_char c :: nat
      in (48 \<le> n \<and> n \<le> 57) \<or> (65 \<le> n \<and> n \<le> 90) \<or> n = 95 \<or> (97 \<le> n \<and> n \<le> 122))"

definition trim :: "string \<Rightarrow> string" where
  "trim s = rev (dropWhile is_space (rev (dropWhile is_space s)))"

definition startsWith :: "string \<Rightarrow> string \<Rightarrow> bool" where
  \<comment> \<open>\<open>s.startsWith(q)\<close>\<close>
  "startsWith s q = (take (length q) s = q)"

fun first_match :: "string \<Rightarrow> string \<Rightarrow> nat \<Rightarrow> nat option" where
  \<comment> \<open>the first position, counted from \<open>p\<close>, at which \<open>q\<close> occurs in the rest of the text\<close>
  "first_match q [] p = (if q = [] then Some p else None)"
| "first_match q (c # cs) p =
     (if startsWith (c # cs) q then Some p else first_match q cs (Suc p))"

definition indexOf :: "string \<Rightarrow> string \<Rightarrow> nat \<Rightarrow> nat option" where
  \<comment> \<open>\<open>s.indexOf(q, pos)\<close>; \<open>None\<close> is the result \<open>-1\<close>\<close>
  "indexOf s q pos = (let start = min pos (length s) in first_match q (drop start s) start)"

definition js_includes :: "string \<Rightarrow> string \<Rightarrow> bool" where
  \<comment> \<open>\<open>s.includes(q)\<close>\<close>
  "js_includes s q = (indexOf s q 0 \<noteq> None)"

function split_run :: "string \<Rightarrow> string \<Rightarrow> string list" where
  \<comment> \<open>the pieces between the maximal runs of white space; the first argument is the
      piece read so far\<close>
  "split_run cur [] = [cur]"
| "split_run cur (c # cs) =
     (if is_space c then cur # split_run [] (dropWhile is_space cs)
      else split_run (cur @ [c]) cs)"
  by pat_completeness auto
termination
  by (relation "measure (\<lambda>(cur, s). length s)")
     (auto simp: less_Suc_eq_le length_dropWhile_le)

definition split_ws :: "string \<Rightarrow> string list" where
  \<comment> \<open>\<open>s.split(/\s+/)\<close>\<close>
  "split_ws s = split_run [] s"

subsection \<open>Edit distance\<close>

fun next_row :: "char \<Rightarrow> string \<Rightarrow> nat list \<Rightarrow> nat \<Rightarrow> nat list" where
  \<comment> \<open>the cells \<open>dp[i][1..n]\<close> from the row \<open>dp[i-1][0..n]\<close> and the cell to the left\<close>
  "next_row c (d # ds) (diag # up # prev) left =
     (let v = (if c = d then diag else 1 + min up (min left diag))
      in v # next_row c ds (up # prev) v)"
| "next_row c ds prev left = []"

fun lev_rows :: "string \<Rightarrow> string \<Rightarrow> nat \<Rightarrow> nat list \<Rightarrow> nat list" where
  \<comment> \<open>the loop over \<open>i\<close>: from the row \<open>i - 1\<close> to the last row\<close>
  "lev_rows [] str2 i row = row"
| "lev_rows (c # cs) str2 i row = lev_rows cs str2 (Suc i) (i # next_row c str2 row i)"

definition levenshteinDistance :: "string \<Rightarrow> string \<Rightarrow> nat" where
  "levenshteinDistance str1 str2 = last (lev_rows str1 str2 1 [0..<Suc (length str2)])"

definition stringSimilarity :: "string \<Rightarrow> string \<Rightarrow> rat" where
  \<comment> \<open>the quotient is computed exactly\<close>
  "stringSimilarity str1 str2 =
     (let longer = (if length str1 > length str2 then str1 else str2);
          shorter = (if length str1 > length str2 then str2 else str1)
      in if length longer = 0 then 1
         else (let distance = levenshteinDistance longer shorter
               in (of_nat (length longer) - of_nat distance) / of_nat (length longer)))"

subsection \<open>Tokens and match positions\<close>

definition tokenize :: "string \<Rightarrow> string list" where
  "tokenize text =
     filter (\<lambda>token. length token > 0)
       (split_ws (map (\<lambda>c. if \<not> is_word_char c \<and> \<not> is_space c then CHR '' '' else c)
                   (toLowerCase text)))"

partial_function (option) find_loop ::
  "string \<Rightarrow> string \<Rightarrow> nat \<Rightarrow> (int \<times> int) list \<Rightarrow> (int \<times> int) list option" where
  \<comment> \<open>the \<open>while\<close> loop of \<open>findMatchIndices\<close>; it does not end when the query is empty\<close>
  "find_loop lowerText lowerQuery pos indices =
     (case indexOf lowerText lowerQuery pos of
        None \<Rightarrow> Some indices
      | Some p \<Rightarrow>
          find_loop lowerText lowerQuery (p + 1)
            (indices @ [(int p, int p + int (length lowerQuery))]))"

declare find_loop.simps [code]

definition findMatchIndices :: "string \<Rightarrow> string \<Rightarrow> (int \<times> int) list option" where
  "findMatchIndices text query = find_loop (toLowerCase text) (toLowerCase query) 0 []"

fun merge_loop :: "(int \<times> int) list \<Rightarrow> (int \<times> int) list \<Rightarrow> (int \<times> int) list" where
  \<comment> \<open>the loop of \<open>mergeIndices\<close>: the ranges merged so far (never empty) and the ranges
      still to visit\<close>
  "merge_loop merged [] = merged"
| "merge_loop merged (current # rest) =
     (let l = last merged
      in if fst current \<le> snd l
         then merge_loop (butlast merged @ [(fst l, max (snd l) (snd current))]) rest
         else merge_loop (merged @ [current]) rest)"

definition mergeIndices :: "(int \<times> int) list \<Rightarrow> (int \<times> int) list" where
  "mergeIndices indices =
     (if indices = [] then []
      else (let sorted = sort_key fst indices in merge_loop [hd sorted] (tl sorted)))"

subsection \<open>The score of one field\<close>

fun fold_option :: "('a \<Rightarrow> 's \<Rightarrow> 's option) \<Rightarrow> 'a list \<Rightarrow> 's \<Rightarrow> 's option" where
  \<comment> \<open>a \<open>for ... of\<close> loop whose body may not return\<close>
  "fold_option f [] s = Some s"
| "fold_option f (x # xs) s = (case f x s of None \<Rightarrow> None | Some s' \<Rightarrow> fold_option f xs s')"

type_synonym match_state = "int \<times> (int \<times> int) list"

definition match_token :: "string \<Rightarrow> string \<Rightarrow> string \<Rightarrow> match_state \<Rightarrow> match_state option" where
  \<comment> \<open>the body of the inner loop of the token matching; the state is
      \<open>(totalScore, allIndices)\<close>\<close>
  "match_token fieldValue queryToken valueToken st =
     (case st of (totalScore, allIndices) \<Rightarrow>
        if valueToken = queryToken then
          (case findMatchIndices fieldValue queryToken of
             None \<Rightarrow> None
           | Some indices \<Rightarrow> Some (totalScore + 30, allIndices @ indices))
        else if startsWith valueToken queryToken then
          (case findMatchIndices fieldValue queryToken of
             None \<Rightarrow> None
           | Some indices \<Rightarrow> Some (totalScore + 20, allIndices @ indices))
        else if js_includes valueToken queryToken then
          (case findMatchIndices fieldValue queryToken of
             None \<Rightarrow> None
           | Some indices \<Rightarrow> Some (totalScore + 15, allIndices @ indices))
        else
          (let similarity = stringSimilarity valueToken queryToken
           in if similarity > 7 / 10
              then Some (totalScore + \<lfloor>similarity * 15\<rfloor>, allIndices)
              else Some (totalScore, allIndices)))"

definition token_matching ::
  "string \<Rightarrow> string list \<Rightarrow> string list \<Rightarrow> match_state \<Rightarrow> match_state option" where
  \<comment> \<open>the two nested loops over the query tokens and the value tokens\<close>
  "token_matching fieldValue valueTokens queryTokens st =
     fold_option
       (\<lambda>queryToken st.
          if length queryToken < 2 then Some st
          else fold_option (match_token fieldValue queryToken) valueTokens st)
       queryTokens st"

definition fuzzyMatchField :: "string \<Rightarrow> string list \<Rightarrow> string \<Rightarrow> match_state option" where
  \<comment> \<open>the result is \<open>(score, indices)\<close>; \<open>None\<close> when the call does not return\<close>
  "fuzzyMatchField fieldValue queryTokens originalQuery =
     (if fieldValue = [] \<or> length (trim fieldValue) = 0 then Some (0, [])
      else
        (let lowerValue = toLowerCase fieldValue;
             lowerQuery = toLowerCase originalQuery
         in if lowerValue = lowerQuery then Some (100, [(0, int (length fieldValue))])
            else
              (case (if js_includes lowerValue lowerQuery
                     then map_option (\<lambda>indices. (80, indices))
                            (findMatchIndices fieldValue originalQuery)
                     else Some (0, [])) of
                 None \<Rightarrow> None
               | Some (score1, indices1) \<Rightarrow>
                   (let score2 = score1 + (if startsWith lowerValue lowerQuery then 60 else 0);
                        words = split_ws lowerValue;
                        score3 = score2 +
                          (if list_ex (\<lambda>word. startsWith word lowerQuery) words then 40 else 0);
                        valueTokens = tokenize fieldValue
                    in case token_matching fieldValue valueTokens queryTokens (score3, indices1) of
                         None \<Rightarrow> None
                       | Some (score4, indices4) \<Rightarrow>
                           (let acronym = concat (map (take 1) words);
                                score5 = score4 +
                                  (if length queryTokens = 1 \<and> length (hd queryTokens) \<le> 5
                                      \<and> js_includes acronym (hd queryTokens)
                                   then 25 else 0)
                            in Some (score5, mergeIndices indices4))))))"

subsection \<open>The matches of one task, and the ranked results\<close>

record field_match =
  m_field :: string
  m_value :: string
  m_score :: int
  m_indices :: "(int \<times> int) list"

record search_result =
  r_taskId :: string
  r_columnId :: string
  r_task :: task
  r_matches :: "field_match list"
  r_totalScore :: int

record column_with_tasks = column +
  col_tasks :: "task list"

definition status_string :: "status \<Rightarrow> string" where
  "status_string s =
     (case s of NotStarted \<Rightarrow> ''not-started'' | InProgress \<Rightarrow> ''in-progress''
      | Paused \<Rightarrow> ''paused'' | Done \<Rightarrow> ''done'')"

definition priority_string :: "priority \<Rightarrow> string" where
  "priority_string p =
     (case p of Urgent \<Rightarrow> ''urgent'' | High \<Rightarrow> ''high'' | Medium \<Rightarrow> ''medium''
      | Low \<Rightarrow> ''low'')"

definition other_fields :: "task \<Rightarrow> tag list \<Rightarrow> (string \<times> string \<times> int) list" where
  \<comment> \<open>the fields that \<open>searchTask\<close> visits after the title, in its order, each with the
      name it reports, its value and its weight (\<open>FIELD_WEIGHTS\<close>; half the weight of an
      attachment for the URL of a link)\<close>
  "other_fields task tgs =
     [(''description'', (case task_description task of None \<Rightarrow> [] | Some d \<Rightarrow> d), 7),
      (''status'', (case task_status task of None \<Rightarrow> [] | Some s \<Rightarrow> status_string s), 3),
      (''priority'', priority_string (task_priority task), 3)]
     @ concat (map (\<lambda>tagId. case find (\<lambda>t. tag_id t = tagId) tgs of
                               None \<Rightarrow> []
                             | Some tag \<Rightarrow> [(''tag'', tag_name tag, 8)])
                   (task_tags task))
     @ map (\<lambda>subtask. (''subtask'', subtask_title subtask, 6)) (task_subtasks task)
     @ map (\<lambda>note. (''note'', note_content note, 5)) (task_notes task)
     @ concat (map (\<lambda>attachment.
                      (''attachment'', att_name attachment, 4)
                      # (if att_type attachment = Link
                         then [(''attachment'', att_url attachment, 2)] else []))
                   (task_attachments task))"

definition add_match ::
  "string list \<Rightarrow> string \<Rightarrow> string \<times> string \<times> int \<Rightarrow> field_match list
     \<Rightarrow> field_match list option" where
  \<comment> \<open>one block of \<open>searchTask\<close>: score the field, and push a match if the score is
      positive\<close>
  "add_match queryTokens query fld matches =
     (case fld of (name, v, weight) \<Rightarrow>
        (case fuzzyMatchField v queryTokens query of
           None \<Rightarrow> None
         | Some (score, indices) \<Rightarrow>
             Some (if score > 0
                   then matches @ [\<lparr>m_field = name, m_value = v, m_score = score * weight,
                                    m_indices = indices\<rparr>]
                   else matches)))"

definition searchTask :: "task \<Rightarrow> string \<Rightarrow> tag list \<Rightarrow> field_match list option" where
  "searchTask task query tgs =
     (let queryTokens = tokenize query
      in if length queryTokens = 0 then Some []
         else fold_option (add_match queryTokens query)
                ((''title'', task_title task, 10) # other_fields task tgs) [])"

definition add_result ::
  "string \<Rightarrow> tag list \<Rightarrow> 'a column_with_tasks_scheme \<Rightarrow> task \<Rightarrow> search_result list
     \<Rightarrow> search_result list option" where
  \<comment> \<open>the body of the loop over the tasks of a column\<close>
  "add_result query tgs column task results =
     (case searchTask task query tgs of
        None \<Rightarrow> None
      | Some matches \<Rightarrow>
          Some (if length matches > 0
                then results @ [\<lparr>r_taskId = task_id task, r_columnId = col_id column,
                                  r_task = task, r_matches = matches,
                                  r_totalScore = foldl (\<lambda>sum m. sum + m_score m) 0 matches\<rparr>]
                else results))"

definition collect_results ::
  "'a column_with_tasks_scheme list \<Rightarrow> string \<Rightarrow> tag list \<Rightarrow> search_result list option" where
  \<comment> \<open>the two loops over the columns and their tasks: the results before they are
      sorted\<close>
  "collect_results cols query tgs =
     fold_option
       (\<lambda>column results. fold_option (add_result query tgs column) (col_tasks column) results)
       cols []"

definition fuzzySearchTasks ::
  "'a column_with_tasks_scheme list \<Rightarrow> string \<Rightarrow> tag list \<Rightarrow> search_result list option" where
  "fuzzySearchTasks cols query tgs =
     (if query = [] \<or> length (trim query) = 0 then Some []
      else map_option (sort_key (\<lambda>r. - r_totalScore r)) (collect_results cols query tgs))"

definition columnsWithTasks :: "board \<Rightarrow> column_with_tasks list" where
  \<comment> \<open>what the search bar hands to \<open>fuzzySearchTasks\<close>: every column with its tasks\<close>
  "columnsWithTasks b =
     map (\<lambda>col. \<lparr>col_id = col_id col, col_title = col_title col, col_order = col_order col,
                   col_tasks = filter (\<lambda>t. task_columnId t = col_id col) (tasks b)\<rparr>)
         (columns b)"

section \<open>Codec: the stored form of a board (useDatabase)\<close>

text \<open>
  A stored payload may have been written by an earlier revision of the program, so in
  what the decoder returns the fields that \<open>migrateState\<close> fills in may be absent. The
  result of \<open>JSON.parse\<close> is cast to \<open>BoardState\<close> without a check; a parsed value
  that is not such an object is kept as \<open>Other\<close>.
\<close>

record stored_task =
  st_id :: string
  st_title :: string
  st_description :: "string option"
  st_priority :: priority
  st_status :: "status option"
  st_notes :: "subnote list"
  st_subtasks :: "subtask list option"
  st_attachments :: "attachment list option"
  st_tags :: "string list option"
  st_columnId :: string
  st_order :: int
  st_createdAt :: nat
  st_completedAt :: "nat option"

record stored_board =
  sb_columns :: "column list"
  sb_tasks :: "stored_task list"
  sb_tags :: "tag list option"

datatype js_value = Board stored_board | Other string

definition to_stored_task :: "task \<Rightarrow> stored_task" where
  "to_stored_task t =
     \<lparr>st_id = task_id t, st_title = task_title t, st_description = task_description t,
      st_priority = task_priority t, st_status = task_status t,
      st_notes = task_notes t, st_subtasks = Some (task_subtasks t),
      st_attachments = Some (task_attachments t), st_tags = Some (task_tags t),
      st_columnId = task_columnId t, st_order = task_order t,
      st_createdAt = task_createdAt t, st_completedAt = task_completedAt t\<rparr>"

definition to_stored :: "board \<Rightarrow> stored_board" where
  \<comment> \<open>a board of the store as a stored value\<close>
  "to_stored b =
     \<lparr>sb_columns = columns b, sb_tasks = map to_stored_task (tasks b), sb_tags = Some (tags b)\<rparr>"

definition or_else :: "'a option \<Rightarrow> 'a \<Rightarrow> 'a" where
  \<comment> \<open>\<open>x || d\<close> on a value that is absent or an object, array or non-empty string\<close>
  "or_else x d = (case x of None \<Rightarrow> d | Some v \<Rightarrow> v)"

definition migrateState :: "stored_board \<Rightarrow> stored_board" where
  "migrateState state =
     (let migratedTasks =
            map (\<lambda>task. task\<lparr>st_status := Some (or_else (st_status task) NotStarted),
                              st_subtasks := Some (or_else (st_subtasks task) []),
                              st_attachments := Some (or_else (st_attachments task) []),
                              st_tags := Some (or_else (st_tags task) [])\<rparr>)
                (sb_tasks state)
      in state\<lparr>sb_tasks := migratedTasks,
               sb_tags := Some (or_else (sb_tags state) defaultTags)\<rparr>)"

definition fully_populated :: "stored_board \<Rightarrow> bool" where
  \<comment> \<open>no field that the migration fills in is missing\<close>
  "fully_populated state =
     (sb_tags state \<noteq> None \<and>
      list_all (\<lambda>task. st_status task \<noteq> None \<and> st_subtasks task \<noteq> None \<and>
                        st_attachments task \<noteq> None \<and> st_tags task \<noteq> None)
               (sb_tasks state))"

subsection \<open>Exceptions and the library functions\<close>

datatype exn = InvalidCharacterError | InflateError | SyntaxError | RangeError | TypeError

definition then_do :: "exn + 'a \<Rightarrow> ('a \<Rightarrow> exn + 'b) \<Rightarrow> exn + 'b" where
  \<comment> \<open>sequencing: an exception ends the block\<close>
  "then_do m f = (case m of Inl e \<Rightarrow> Inl e | Inr v \<Rightarrow> f v)"

definition try_catch :: "exn + 'a \<Rightarrow> (exn \<Rightarrow> exn + 'a) \<Rightarrow> exn + 'a" where
  \<comment> \<open>\<open>try { body } catch (error) { handler }\<close>\<close>
  "try_catch body handler = (case body of Inl e \<Rightarrow> handler e | Inr v \<Rightarrow> Inr v)"

type_synonym byte = "8 word"

record libs =
  \<comment> \<open>the functions of the platform and of pako that the codec calls; each may throw\<close>
  json_stringify :: "js_value \<Rightarrow> exn + string"
  json_parse :: "string \<Rightarrow> exn + js_value"
  pako_gzip :: "string \<Rightarrow> exn + byte list"
  pako_ungzip :: "byte list \<Rightarrow> exn + byte list"
  btoa :: "string \<Rightarrow> exn + string"
  atob :: "string \<Rightarrow> exn + string"
  text_decode :: "byte list \<Rightarrow> string"
  max_arguments :: nat

definition fromCharCode_apply :: "libs \<Rightarrow> byte list \<Rightarrow> exn + string" where
  \<comment> \<open>\<open>String.fromCharCode.apply(null, Array.from(compressed))\<close>: one argument for every
      byte, which the engine refuses beyond its limit\<close>
  "fromCharCode_apply l compressed =
     (if length compressed > max_arguments l then Inl RangeError
      else Inr (map (\<lambda>b. char_of (unat b)) compressed))"

definition char_codes :: "string \<Rightarrow> byte list" where
  \<comment> \<open>the loop \<open>bytes[i] = binaryString.charCodeAt(i)\<close>\<close>
  "char_codes binaryString = map (\<lambda>c. of_nat (of_char c)) binaryString"

subsection \<open>compressState and decompressState\<close>

definition compressState :: "libs \<Rightarrow> stored_board \<Rightarrow> exn + string" where
  "compressState l state =
     try_catch
       (then_do (json_stringify l (Board state)) (\<lambda>json.
        then_do (pako_gzip l json) (\<lambda>compressed.
        then_do (fromCharCode_apply l compressed) (\<lambda>binaryString.
        btoa l binaryString))))
       (\<lambda>error. json_stringify l (Board state))"

datatype payload = PText string | PObject js_value

definition gunzip_payload :: "libs \<Rightarrow> string \<Rightarrow> exn + js_value" where
  \<comment> \<open>the decoding of a base64-encoded gzip of JSON\<close>
  "gunzip_payload l d =
     then_do (atob l d) (\<lambda>binaryString.
     then_do (pako_ungzip l (char_codes binaryString)) (\<lambda>decompressed.
     json_parse l (text_decode l decompressed)))"

definition decompressState :: "libs \<Rightarrow> payload \<Rightarrow> exn + js_value" where
  "decompressState l d =
     try_catch
       (case d of PObject v \<Rightarrow> Inr v | PText s \<Rightarrow> gunzip_payload l s)
       (\<lambda>error.
          then_do
            (try_catch
               (case d of PText s \<Rightarrow> then_do (json_parse l s) (\<lambda>v. Inr (Some v))
                        | PObject v \<Rightarrow> Inr None)
               (\<lambda>_. Inr None))
            (\<lambda>returned. case returned of
                           Some v \<Rightarrow> Inr v
                         | None \<Rightarrow> Inr (Board (to_stored defaultState))))"

definition importBoard :: "libs \<Rightarrow> byte list \<Rightarrow> stored_board option" where
  \<comment> \<open>BackupManager.ts: the content of the file is unzipped and parsed, and refused
      (\<open>null\<close>) on an exception or when columns, tasks or tags are missing; the tasks
      are not looked at. The board returned is handed by \<open>importBoardState\<close> to
      \<open>saveState\<close>, which calls \<open>compressState\<close> on it as it is.\<close>
  "importBoard l file =
     (case then_do (pako_ungzip l file) (\<lambda>decompressed.
           json_parse l (text_decode l decompressed)) of
        Inl error \<Rightarrow> None
      | Inr (Other v) \<Rightarrow> None
      | Inr (Board state) \<Rightarrow> if sb_tags state = None then None else Some state)"

definition decoder_fallback :: "libs \<Rightarrow> payload \<Rightarrow> js_value" where
  \<comment> \<open>the order of the attempts, as the specification words it: an object as it is; a
      string as base64, gzip and JSON, then as plain JSON, then the default board\<close>
  "decoder_fallback l d =
     (case d of
        PObject v \<Rightarrow> v
      | PText s \<Rightarrow>
          (case gunzip_payload l s of
             Inr v \<Rightarrow> v
           | Inl e \<Rightarrow>
               (case json_parse l s of
                  Inr v \<Rightarrow> v
                | Inl e' \<Rightarrow> Board (to_stored defaultState))))"

definition libs_round_trip :: "libs \<Rightarrow> stored_board \<Rightarrow> bool" where
  \<comment> \<open>what the codec takes from the libraries, for the board at hand: its JSON text
      exists, parses back to it and is not base64; \<open>atob\<close> inverts \<open>btoa\<close>;
      \<open>ungzip\<close> and the text decoder invert \<open>gzip\<close>\<close>
  "libs_round_trip l state =
     ((\<exists>json. json_stringify l (Board state) = Inr json \<and>
              json_parse l json = Inr (Board state) \<and>
              (\<exists>e. atob l json = Inl e)) \<and>
      (\<forall>binaryString s. btoa l binaryString = Inr s \<longrightarrow> atob l s = Inr binaryString) \<and>
      (\<forall>text z. pako_gzip l text = Inr z \<longrightarrow>
          (\<exists>u. pako_ungzip l z = Inr u \<and> text_decode l u = text)))"

section \<open>Recovery: the checksum (RecoveryManager.ts)\<close>

definition hash_step :: "32 word \<Rightarrow> char \<Rightarrow> 32 word" where
  \<comment> \<open>the body of the loop of \<open>generateHash\<close>: \<open>hash << 5\<close> and \<open>hash & hash\<close> keep the
      value in 32 bits\<close>
  "hash_step hash c = (push_bit 5 hash - hash) + of_nat (of_char c)"

definition hash32 :: "string \<Rightarrow> 32 word" where
  \<comment> \<open>the value of \<open>hash\<close> after the loop\<close>
  "hash32 d = foldl hash_step 0 d"

definition generateHash :: "string \<Rightarrow> string" where
  \<comment> \<open>\<open>Math.abs(hash).toString(16)\<close>, the hash read as a signed number\<close>
  "generateHash d = to_digits 16 (nat \<bar>sint (hash32 d)\<bar>)"

definition verifyHash :: "string \<Rightarrow> string \<Rightarrow> bool" where
  "verifyHash d hash = (generateHash d = hash)"

definition differs_in_one :: "string \<Rightarrow> string \<Rightarrow> bool" where
  \<comment> \<open>the two strings have the same length and differ at exactly one position\<close>
  "differs_in_one d d' =
     (length d = length d' \<and> length (filter (\<lambda>(a, b). a \<noteq> b) (zip d d')) = 1)"

section \<open>Recovery: the tiers (RecoveryManager.ts)\<close>

record backup =
  backup_data :: string
  backup_timestamp :: nat
  backup_hash :: string

definition backupData :: "libs \<Rightarrow> nat \<Rightarrow> stored_board \<Rightarrow> exn + backup" where
  \<comment> \<open>the record \<open>backupData\<close> that \<open>createRecoveryBackup\<close> builds and then writes;
      \<open>now\<close> is the reading of the clock. An exception ends the function.\<close>
  "backupData l now state =
     then_do (json_stringify l (Board state)) (\<lambda>json.
     then_do (pako_gzip l json) (\<lambda>compressed.
     then_do (fromCharCode_apply l compressed) (\<lambda>binaryString.
     then_do (btoa l binaryString) (\<lambda>base64.
     Inr \<lparr>backup_data = base64, backup_timestamp = now,
          backup_hash = generateHash base64\<rparr>))))"

definition decompressBackup :: "libs \<Rightarrow> string \<Rightarrow> stored_board option" where
  \<comment> \<open>every exception, also the one thrown for a structure without columns, tasks or
      tags, ends in the result \<open>null\<close>\<close>
  "decompressBackup l base64 =
     (case gunzip_payload l base64 of
        Inl error \<Rightarrow> None
      | Inr (Other v) \<Rightarrow> None
      | Inr (Board state) \<Rightarrow> if sb_tags state = None then None else Some state)"

datatype 'a read = Throws | Absent | Found 'a

record stores =
  \<comment> \<open>what the three backends answer when they are read: the record of the recovery
      database, the two items of the local storage, the two cookies\<close>
  idb_backup :: "backup read"
  ls_data :: "string read"
  ls_hash :: "string read"
  cookie_data :: "string read"
  cookie_hash :: "string read"

datatype source = IndexedDB | LocalStorage | Cookies

record recovery =
  recovered :: bool
  rec_state :: "stored_board option"
  rec_source :: "source option"

definition recovered_from :: "source \<Rightarrow> stored_board \<Rightarrow> recovery" where
  "recovered_from src state = \<lparr>recovered = True, rec_state = Some state, rec_source = Some src\<rparr>"

definition not_recovered :: recovery where
  "not_recovered = \<lparr>recovered = False, rec_state = None, rec_source = None\<rparr>"

definition from_indexeddb :: "libs \<Rightarrow> stores \<Rightarrow> recovery option" where
  \<comment> \<open>the first inner \<open>try\<close> block; \<open>None\<close> when it returns nothing\<close>
  "from_indexeddb l st =
     (case idb_backup st of
        Found b \<Rightarrow>
          if verifyHash (backup_data b) (backup_hash b)
          then map_option (recovered_from IndexedDB) (decompressBackup l (backup_data b))
          else None
      | _ \<Rightarrow> None)"

definition from_text_tier :: "libs \<Rightarrow> source \<Rightarrow> string read \<Rightarrow> string read \<Rightarrow> recovery option" where
  \<comment> \<open>the second and the third inner \<open>try\<close> block: payload and hash are two strings,
      and an empty string counts as absent\<close>
  "from_text_tier l src d h =
     (case (d, h) of
        (Found base64, Found storedHash) \<Rightarrow>
          if base64 \<noteq> [] \<and> storedHash \<noteq> [] \<and> verifyHash base64 storedHash
          then map_option (recovered_from src) (decompressBackup l base64)
          else None
      | _ \<Rightarrow> None)"

definition attemptRecovery :: "libs \<Rightarrow> stores \<Rightarrow> recovery" where
  "attemptRecovery l st =
     (case from_indexeddb l st of
        Some r \<Rightarrow> r
      | None \<Rightarrow>
          (case from_text_tier l LocalStorage (ls_data st) (ls_hash st) of
             Some r \<Rightarrow> r
           | None \<Rightarrow>
               (case from_text_tier l Cookies (cookie_data st) (cookie_hash st) of
                  Some r \<Rightarrow> r
                | None \<Rightarrow> not_recovered)))"

section \<open>The properties, as the specification words them\<close>



definition ex_board3 :: board where
  \<comment> \<open>three tasks added to the first column of the default board\<close>
  "ex_board3 =
     addTask 3 3 ''col-1'' ''c'' (addTask 2 2 ''col-1'' ''b'' (addTask 1 1 ''col-1'' ''a'' defaultState))"

definition ex_board_gap :: board where
  \<comment> \<open>and the second of them deleted\<close>
  "ex_board_gap = deleteTask ''task-2'' ex_board3"

definition ex_board1 :: board where
  \<comment> \<open>one task added to the first column of the default board\<close>
  "ex_board1 = addTask 1 1 ''col-1'' ''a'' defaultState"

subsection \<open>Sequences of status changes\<close>

datatype store_op =
    UpdateTask "nat \<Rightarrow> nat" string task_updates
  | SetColumnTasksStatus "nat \<Rightarrow> nat" string status

fun apply_op :: "store_op \<Rightarrow> board \<Rightarrow> board" where
  "apply_op (UpdateTask now taskId updates) b = updateTask now taskId updates b"
| "apply_op (SetColumnTasksStatus now columnId st) b = setColumnTasksStatus now columnId st b"

fun op_clock :: "store_op \<Rightarrow> nat \<Rightarrow> nat" where
  "op_clock (UpdateTask now taskId updates) = now"
| "op_clock (SetColumnTasksStatus now columnId st) = now"

fun carries_completedAt :: "store_op \<Rightarrow> bool" where
  \<comment> \<open>the partial fields of an updateTask call have the key \<open>completedAt\<close>\<close>
  "carries_completedAt (UpdateTask now taskId updates) = (u_completedAt updates \<noteq> None)"
| "carries_completedAt (SetColumnTasksStatus now columnId st) = False"

fun carries_undefined_status :: "store_op \<Rightarrow> bool" where
  \<comment> \<open>the partial fields of an updateTask call have the key \<open>status\<close> with the value
      \<open>undefined\<close>\<close>
  "carries_undefined_status (UpdateTask now taskId updates) = (u_status updates = Some None)"
| "carries_undefined_status (SetColumnTasksStatus now columnId st) = False"

fun run_ops :: "store_op list \<Rightarrow> board \<Rightarrow> board" where
  "run_ops [] b = b"
| "run_ops (op # ops) b = run_ops ops (apply_op op b)"

definition completed_iff_done :: "board \<Rightarrow> bool" where
  \<comment> \<open>every task has completedAt set if and only if its status is done\<close>
  "completed_iff_done b =
     (\<forall>t \<in> set (tasks b). (task_completedAt t \<noteq> None) = (task_status t = Some Done))"

definition transition_step ::
  "(nat \<Rightarrow> nat) \<Rightarrow> task list \<Rightarrow> task list \<Rightarrow> nat option list \<Rightarrow> nat option list" where
  \<comment> \<open>the time of the most recent transition into done of the task at each position,
      after a call that turned the tasks \<open>before\<close> into the tasks \<open>after\<close>:
      the reading of the clock if the task has just become done, the earlier time if it
      was done and still is, nothing if it is not done\<close>
  "transition_step now before after prev =
     map (\<lambda>i. if task_status (after ! i) = Some Done
              then (if task_status (before ! i) = Some Done then prev ! i else Some (now i))
              else None)
         [0..<length after]"

fun last_transition_times :: "store_op list \<Rightarrow> board \<Rightarrow> nat option list \<Rightarrow> nat option list" where
  "last_transition_times [] b prev = prev"
| "last_transition_times (op # ops) b prev =
     last_transition_times ops (apply_op op b)
       (transition_step (op_clock op) (tasks b) (tasks (apply_op op b)) prev)"

definition ex_ops :: "store_op list" where
  "ex_ops =
     [UpdateTask (\<lambda>i. 10) ''task-1'' (no_updates\<lparr>u_status := Some (Some Done)\<rparr>),
      SetColumnTasksStatus (\<lambda>i. 20 + i) ''col-1'' Done,
      UpdateTask (\<lambda>i. 30) ''task-2'' (no_updates\<lparr>u_status := Some (Some Paused)\<rparr>)]"

subsection \<open>Sequences of creations\<close>

datatype create_op =
    AddColumn nat string
  | AddTask nat nat string string
  | AddTag nat string string

fun create :: "create_op \<Rightarrow> board \<Rightarrow> string \<times> board" where
  \<comment> \<open>the id of the entity that the call creates, and the next board\<close>
  "create (AddColumn now title) b =
     (let b' = addColumn now title b in (col_id (last (columns b')), b'))"
| "create (AddTask now now' columnId title) b =
     (let b' = addTask now now' columnId title b in (task_id (last (tasks b')), b'))"
| "create (AddTag now name color) b =
     (let b' = addTag now name color b in (tag_id (last (tags b')), b'))"

fun created_ids :: "create_op list \<Rightarrow> board \<Rightarrow> string list" where
  "created_ids [] b = []"
| "created_ids (op # ops) b = (case create op b of (i, b') \<Rightarrow> i # created_ids ops b')"

datatype entity_kind = ColumnKind | TaskKind | TagKind

fun id_source :: "create_op \<Rightarrow> entity_kind \<times> nat" where
  \<comment> \<open>the kind of the entity and the reading of the clock that its id is made of\<close>
  "id_source (AddColumn now title) = (ColumnKind, now)"
| "id_source (AddTask now now' columnId title) = (TaskKind, now)"
| "id_source (AddTag now name color) = (TagKind, now)"

fun id_of_source :: "entity_kind \<times> nat \<Rightarrow> string" where
  "id_of_source (ColumnKind, now) = ''col-'' @ decimal now"
| "id_of_source (TaskKind, now) = ''task-'' @ decimal now"
| "id_of_source (TagKind, now) = ''tag-'' @ decimal now"

subsection \<open>Boards for the search\<close>

definition ex_board_punct :: board where
  "ex_board_punct = addTask 1 1 ''col-1'' ''Really?!'' defaultState"

definition ex_board_fix :: board where
  \<comment> \<open>the longer title is added first, so it is met first by the search\<close>
  "ex_board_fix =
     addTask 2 2 ''col-1'' ''Fix bug'' (addTask 1 1 ''col-1'' ''Fix the button bug'' defaultState)"

definition only_title_matches :: "task \<Rightarrow> string \<Rightarrow> tag list \<Rightarrow> bool" where
  \<comment> \<open>no field of the task other than its title matches the query\<close>
  "only_title_matches task query tgs =
     (case searchTask task query tgs of
        None \<Rightarrow> False
      | Some matches \<Rightarrow> list_all (\<lambda>m. m_field m = ''title'') matches)"

definition result_for ::
  "string \<Rightarrow> tag list \<Rightarrow> 'a column_with_tasks_scheme \<Rightarrow> task \<Rightarrow> search_result list" where
  \<comment> \<open>the results that one task contributes: one if it has a match, none otherwise\<close>
  "result_for query tgs column task =
     (case add_result query tgs column task [] of None \<Rightarrow> [] | Some results \<Rightarrow> results)"

subsection \<open>A board of an earlier revision, and stand-ins for the libraries\<close>

definition ex_legacy :: stored_board where
  \<comment> \<open>a payload written before status, subtasks, attachments and tags existed\<close>
  "ex_legacy =
     \<lparr>sb_columns = defaultColumns,
      sb_tasks = [\<lparr>st_id = ''task-1'', st_title = ''a'', st_description = None,
                   st_priority = Medium, st_status = None, st_notes = [], st_subtasks = None,
                   st_attachments = None, st_tags = None, st_columnId = ''col-1'',
                   st_order = 0, st_createdAt = 1, st_completedAt = None\<rparr>],
      sb_tags = None\<rparr>"

definition ex_import :: stored_board where
  \<comment> \<open>the content of an export file that has columns, tasks and tags, and whose task
      was written before tasks had a status, subtasks, attachments and tags\<close>
  "ex_import =
     \<lparr>sb_columns = defaultColumns,
      sb_tasks = [\<lparr>st_id = ''task-1'', st_title = ''a'', st_description = None,
                   st_priority = Medium, st_status = None, st_notes = [], st_subtasks = None,
                   st_attachments = None, st_tags = None, st_columnId = ''col-1'',
                   st_order = 0, st_createdAt = 1, st_completedAt = None\<rparr>],
      sb_tags = Some defaultTags\<rparr>"

definition ex_stringify :: "js_value \<Rightarrow> string" where
  "ex_stringify v =
     (if v = Board ex_legacy then ''{legacy}''
      else if v = Board ex_import then ''{import}''
      else if v = Board (to_stored ex_board1) then ''{board1}'' else ''{}'')"

definition ex_parse :: "string \<Rightarrow> exn + js_value" where
  "ex_parse t =
     (if t = ''{legacy}'' then Inr (Board ex_legacy)
      else if t = ''{import}'' then Inr (Board ex_import)
      else if t = ''{board1}'' then Inr (Board (to_stored ex_board1))
      else Inl SyntaxError)"

definition ex_libs :: libs where
  \<comment> \<open>stand-ins with the round-trip behaviour of the real functions: the compression
      stores the text as it is, and the text-safe encoding puts a mark in front\<close>
  "ex_libs =
     \<lparr>json_stringify = (\<lambda>v. Inr (ex_stringify v)),
      json_parse = ex_parse,
      pako_gzip = (\<lambda>t. Inr (char_codes t)),
      pako_ungzip = (\<lambda>z. Inr z),
      btoa = (\<lambda>s. Inr (CHR ''='' # s)),
      atob = (\<lambda>s. case s of [] \<Rightarrow> Inl InvalidCharacterError
                     | c # r \<Rightarrow> if c = CHR ''='' then Inr r else Inl InvalidCharacterError),
      text_decode = map (\<lambda>b. char_of (unat b)),
      max_arguments = 65536\<rparr>"

subsection \<open>A backup of a board with one task, as the libraries write it\<close>

text \<open>
  The values of \<open>JSON.stringify\<close>, \<open>pako.gzip\<close> (deflate of zlib 1.2.13 at the default
  level, under the ten-byte header that pako writes) and \<open>btoa\<close> for the default board
  with one task that was added at the time 1700092915253.
\<close>

definition ex_backup_board :: board where
  "ex_backup_board = addTask 1700092915253 1700092915253 ''col-1'' ''Fix bug'' defaultState"

definition ex_json :: string where
  \<open>ex_json =
     ''{"columns":[{"id":"col-1","title":"To Do","order":0},{"id":"col-2","title":'' @
     ''"In Progress","order":1},{"id":"col-3","title":"Done","order":2}],"tasks":['' @
     ''{"id":"task-1700092915253","title":"Fix bug","priority":"medium","status":"'' @
     ''not-started","notes":[],"subtasks":[],"attachments":[],"tags":[],"columnId"'' @
     '':"col-1","order":0,"createdAt":1700092915253}],"tags":[{"id":"tag-1","name"'' @
     '':"Bug","color":"#ef4444"},{"id":"tag-2","name":"Feature","color":"#06b6d4"}'' @
     '',{"id":"tag-3","name":"Urgent","color":"#f97316"},{"id":"tag-4","name":"Des'' @
     ''ign","color":"#8b5cf6"}]}''\<close>

definition ex_gzip :: "byte list" where
  "ex_gzip =
     [31, 139, 8, 0, 0, 0, 0, 0, 0, 3, 93, 144, 205, 110, 131, 48, 16, 132, 95, 5,
      185, 215, 32, 129, 9, 164, 112, 107, 133, 34, 229, 150, 67, 123, 170, 114, 48, 176, 184, 86,
      131, 29, 217, 107, 169, 85, 196, 187, 119, 73, 147, 216, 41, 39, 102, 60, 223, 254, 157, 89,
      111, 142, 126, 210, 142, 53, 31, 103, 166, 6, 214, 44, 70, 154, 179, 21, 67, 133, 71, 32,
      253, 102, 146, 214, 144, 54, 118, 0, 203, 154, 108, 94, 69, 65, 30, 5, 119, 58, 217, 91,
      35, 45, 56, 23, 226, 249, 67, 188, 136, 226, 173, 209, 16, 114, 124, 62, 208, 147, 112, 95,
      209, 36, 139, 76, 243, 77, 150, 101, 53, 175, 243, 146, 151, 49, 190, 85, 223, 73, 231, 37,
      57, 39, 171, 140, 85, 248, 67, 230, 4, 131, 242, 19, 121, 14, 5, 122, 42, 197, 180, 193,
      148, 132, 69, 24, 200, 38, 5, 75, 3, 234, 229, 124, 119, 107, 71, 74, 32, 138, 254, 115,
      2, 141, 87, 3, 133, 188, 254, 253, 29, 104, 23, 159, 230, 118, 10, 122, 180, 32, 168, 244,
      11, 210, 166, 241, 160, 115, 40, 113, 95, 70, 94, 88, 45, 166, 101, 252, 215, 203, 232, 84,
      208, 80, 33, 246, 4, 227, 154, 62, 118, 63, 214, 146, 230, 33, 189, 165, 46, 222, 66, 76,
      100, 85, 87, 13, 255, 136, 34, 16, 239, 86, 210, 50, 49, 48, 214, 155, 34, 175, 30, 129,
      117, 0, 90, 112, 74, 234, 24, 120, 238, 202, 126, 36, 224, 48, 255, 2, 244, 159, 127, 249,
      38, 2, 0, 0]"

definition ex_data :: string where
  "ex_data =
     ''H4sIAAAAAAAAA12QzW6DMBCEXwW51yCBCaRwa4Ui5ZZDe6pyMLC4VoMd2WupVcS7d0mT2CknZjz'' @
     ''f/p1Zb45+0o41H2emBtYsRpqzFUOFRyD9ZpLWkDZ2AMuabF5FQR4FdzrZWyMtOBfi+UO8iOKt0R'' @
     ''ByfD7Qk3Bf0SSLTPNNlmU1r/OSlzG+Vd9J5yU5J6uMVfhD5gSD8hN5DgV6KsW0wZSERRjIJgVLA'' @
     ''+rlfHdrR0ogiv5zAo1XA4W8/v0daBef5nYKerQgqPQL0qbxoHMocV9GXlgtpmX818voVNBQIfYE'' @
     ''45o+dj/WkuYhvaUu3kJMZFVXDf+IIhDvVtIyMTDWmyKvHoF1AFpwSuoYeO7KfiTgMP8C9J9/+SY'' @
     ''CAAA=''"

definition ex_data_changed :: string where
  \<comment> \<open>the character at index 10 is \<open>k\<close> instead of \<open>A\<close>: byte 7 of the zipped data, the
      last byte of the time stamp in its header, is 9 instead of 0\<close>
  "ex_data_changed = ex_data[10 := CHR ''k'']"

definition ex_data_damaged :: string where
  \<comment> \<open>the character at index 10 is \<open>B\<close> instead of \<open>A\<close>\<close>
  "ex_data_damaged = ex_data[10 := CHR ''B'']"

definition payload_libs :: libs where
  \<comment> \<open>the library functions at the values above; at every other argument the
      stand-in throws\<close>
  "payload_libs =
     \<lparr>json_stringify = (\<lambda>v. if v = Board (to_stored ex_backup_board) then Inr ex_json
                               else Inl TypeError),
      json_parse = (\<lambda>t. if t = ex_json then Inr (Board (to_stored ex_backup_board))
                           else Inl SyntaxError),
      pako_gzip = (\<lambda>t. if t = ex_json then Inr ex_gzip else Inl TypeError),
      pako_ungzip = (\<lambda>z. if z = ex_gzip \<or> z = ex_gzip[7 := 9] then Inr (char_codes ex_json)
                            else Inl InflateError),
      btoa = (\<lambda>s. if char_codes s = ex_gzip then Inr ex_data else Inl InvalidCharacterError),
      atob = (\<lambda>s. if s = ex_data then Inr (map (\<lambda>b. char_of (unat b)) ex_gzip)
                     else if s = ex_data_changed
                     then Inr (map (\<lambda>b. char_of (unat b)) (ex_gzip[7 := 9]))
                     else Inl InvalidCharacterError),
      text_decode = map (\<lambda>b. char_of (unat b)),
      max_arguments = 65536\<rparr>"

definition ex_backup_stores :: "string \<Rightarrow> stores" where
  \<comment> \<open>the recovery database holds the given payload under the checksum of the backup,
      the local storage holds the backup as it was written, and there are no cookies\<close>
  "ex_backup_stores d =
     \<lparr>idb_backup = Found \<lparr>backup_data = d, backup_timestamp = 1700092915254,
                            backup_hash = ''7839688b''\<rparr>,
      ls_data = Found ex_data,
      ls_hash = Found ''7839688b'',
      cookie_data = Absent,
      cookie_hash = Absent\<rparr>"

section \<open>Basic facts about the list helpers\<close>

lemma length_map_indexed: "length (map_indexed f xs) = length xs"
  by (simp add: map_indexed_def)

lemma nth_map_indexed: "i < length xs \<Longrightarrow> map_indexed f xs ! i = f i (xs ! i)"
  by (simp add: map_indexed_def nth_enumerate_eq)

lemma decimal_small [simp]:
  "decimal (Suc 0) = ''1''" "decimal 1 = ''1''" "decimal 2 = ''2''" "decimal 3 = ''3''"
  by (simp_all add: decimal_def to_digits.simps digit_char_def)

lemma digit_char_inj:
  assumes "d < 16" "e < 16" "digit_char d = digit_char e"
  shows "d = e"
proof -
  have "distinct ''0123456789abcdef''" by simp
  moreover have "d < length ''0123456789abcdef''" "e < length ''0123456789abcdef''"
    using assms by simp_all
  ultimately show ?thesis using assms(3) unfolding digit_char_def
    by (simp only: nth_eq_iff_index_eq)
qed

lemma to_digits_nonempty: "to_digits b n \<noteq> []"
  by (subst to_digits.simps) simp

lemma to_digits_inj:
  assumes "2 \<le> b" "b \<le> 16" "to_digits b n = to_digits b m"
  shows "n = m"
  using assms
proof (induction b n arbitrary: m rule: to_digits.induct)
  case (1 b n)
  show ?case
  proof (cases "n < b")
    case nb: True
    then have n: "to_digits b n = [digit_char n]" by (subst to_digits.simps) simp
    show ?thesis
    proof (cases "m < b")
      case True
      then have "to_digits b m = [digit_char m]" by (subst to_digits.simps) simp
      with n "1.prems" have "digit_char n = digit_char m" by simp
      moreover have "n < 16" "m < 16" using nb True "1.prems"(2) by simp_all
      ultimately show ?thesis by (rule digit_char_inj [rotated 2])
    next
      case False
      then have "to_digits b m = to_digits b (m div b) @ [digit_char (m mod b)]"
        using "1.prems"(1) by (subst to_digits.simps) simp
      with n "1.prems"(3) to_digits_nonempty [of b "m div b"] show ?thesis by simp
    qed
  next
    case nb: False
    then have n: "to_digits b n = to_digits b (n div b) @ [digit_char (n mod b)]"
      using "1.prems"(1) by (subst to_digits.simps) simp
    show ?thesis
    proof (cases "m < b")
      case True
      then have "to_digits b m = [digit_char m]" by (subst to_digits.simps) simp
      with n "1.prems"(3) to_digits_nonempty [of b "n div b"] show ?thesis by simp
    next
      case False
      then have "to_digits b m = to_digits b (m div b) @ [digit_char (m mod b)]"
        using "1.prems"(1) by (subst to_digits.simps) simp
      with n "1.prems"(3)
      have eq: "to_digits b (n div b) = to_digits b (m div b)"
        and dg: "digit_char (n mod b) = digit_char (m mod b)" by simp_all
      have "\<not> (b < 2 \<or> n < b)" using nb "1.prems"(1) by simp
      from "1.IH" [OF this "1.prems"(1,2) eq] have dv: "n div b = m div b" .
      have "n mod b < 16" "m mod b < 16" using "1.prems"(1,2)
        by (simp_all add: less_le_trans [OF mod_less_divisor])
      from digit_char_inj [OF this dg] have md: "n mod b = m mod b" .
      from dv md show ?thesis by (metis div_mult_mod_eq)
    qed
  qed
qed

lemma decimal_inj: "decimal n = decimal m \<Longrightarrow> n = m"
  unfolding decimal_def by (rule to_digits_inj [of 10]) simp_all
section \<open>The search returns\<close>

lemma first_match_bounds:
  assumes "first_match q s p = Some r" "q \<noteq> []"
  shows "p \<le> r \<and> r < p + length s"
  using assms
proof (induction s arbitrary: p)
  case Nil
  then show ?case by simp
next
  case (Cons c cs)
  show ?case
  proof (cases "startsWith (c # cs) q")
    case True
    with Cons.prems show ?thesis by simp
  next
    case False
    with Cons.prems have "first_match q cs (Suc p) = Some r" by simp
    from Cons.IH [OF this Cons.prems(2)] show ?thesis by simp
  qed
qed

lemma indexOf_bounds:
  assumes "indexOf s q pos = Some r" "q \<noteq> []"
  shows "pos \<le> r \<and> r < length s"
proof -
  let ?start = "min pos (length s)"
  from assms(1) have fm: "first_match q (drop ?start s) ?start = Some r"
    by (simp add: indexOf_def Let_def)
  from first_match_bounds [OF fm assms(2)]
  have b: "?start \<le> r" "r < ?start + length (drop ?start s)" by simp_all
  then have "r < length s" by simp
  with b(1) show ?thesis by (simp add: min_def split: if_splits)
qed

lemma find_loop_returns:
  assumes "q \<noteq> []"
  shows "\<exists>r. find_loop t q pos acc = Some r"
proof (induction "Suc (length t) - pos" arbitrary: pos acc rule: less_induct)
  case less
  show ?case
  proof (cases "indexOf t q pos")
    case None
    then show ?thesis by (subst find_loop.simps) simp
  next
    case (Some p)
    from indexOf_bounds [OF Some assms] have "pos \<le> p" "p < length t" by simp_all
    then have "Suc (length t) - (p + 1) < Suc (length t) - pos" by simp
    from less [OF this] obtain r
      where "find_loop t q (p + 1) (acc @ [(int p, int p + int (length q))]) = Some r"
      by blast
    with Some show ?thesis by (subst find_loop.simps) simp
  qed
qed

lemma findMatchIndices_returns:
  "query \<noteq> [] \<Longrightarrow> \<exists>r. findMatchIndices text query = Some r"
  unfolding findMatchIndices_def by (rule find_loop_returns) (simp add: toLowerCase_def)

lemma fold_option_returns:
  assumes "\<And>x s. x \<in> set xs \<Longrightarrow> \<exists>s'. f x s = Some s'"
  shows "\<exists>s'. fold_option f xs s = Some s'"
  using assms
proof (induction xs arbitrary: s)
  case Nil
  then show ?case by simp
next
  case (Cons x xs)
  from Cons.prems [of x s] obtain s1 where s1: "f x s = Some s1" by auto
  from Cons.IH [of s1] Cons.prems obtain s2 where "fold_option f xs s1 = Some s2" by auto
  with s1 show ?case by simp
qed

lemma match_token_returns:
  assumes "queryToken \<noteq> []"
  shows "\<exists>st'. match_token fieldValue queryToken valueToken st = Some st'"
proof -
  obtain indices where "findMatchIndices fieldValue queryToken = Some indices"
    using findMatchIndices_returns [OF assms] by blast
  then show ?thesis
    by (cases st) (simp add: match_token_def Let_def)
qed

lemma token_matching_returns:
  "\<exists>st'. token_matching fieldValue valueTokens queryTokens st = Some st'"
  unfolding token_matching_def
proof (rule fold_option_returns)
  fix queryToken :: string and s :: match_state
  show "\<exists>s'. (if length queryToken < 2 then Some s
              else fold_option (match_token fieldValue queryToken) valueTokens s) = Some s'"
  proof (cases "length queryToken < 2")
    case True
    then show ?thesis by simp
  next
    case False
    then have ne: "queryToken \<noteq> []" by auto
    from fold_option_returns [of valueTokens "match_token fieldValue queryToken" s]
      match_token_returns [OF ne]
    show ?thesis using False by simp
  qed
qed

lemma fuzzyMatchField_returns:
  assumes "originalQuery \<noteq> []"
  shows "\<exists>r. fuzzyMatchField fieldValue queryTokens originalQuery = Some r"
proof -
  obtain indices where fm: "findMatchIndices fieldValue originalQuery = Some indices"
    using findMatchIndices_returns [OF assms] by blast
  let ?lv = "toLowerCase fieldValue" and ?lq = "toLowerCase originalQuery"
  obtain score1 :: int and indices1 where first:
    "(if js_includes ?lv ?lq
      then map_option (\<lambda>indices. (80, indices)) (findMatchIndices fieldValue originalQuery)
      else Some (0, [])) = Some (score1, indices1)"
    using fm by (cases "js_includes ?lv ?lq") simp_all
  let ?s3 = "score1 + (if startsWith ?lv ?lq then 60 else 0)
               + (if list_ex (\<lambda>word. startsWith word ?lq) (split_ws ?lv) then 40 else 0)"
  obtain score4 indices4 where
    "token_matching fieldValue (tokenize fieldValue) queryTokens (?s3, indices1)
       = Some (score4, indices4)"
    using token_matching_returns [of fieldValue "tokenize fieldValue" queryTokens "(?s3, indices1)"]
    by auto
  with first show ?thesis
    by (simp add: fuzzyMatchField_def Let_def)
qed

lemma tokenize_empty [simp]: "tokenize [] = []"
  by (simp add: tokenize_def toLowerCase_def split_ws_def)

lemma add_match_returns:
  assumes "query \<noteq> []"
  shows "\<exists>ms. add_match queryTokens query fld matches = Some ms"
proof -
  obtain name v weight where fld: "fld = (name, v, weight)" by (cases fld)
  obtain score indices where "fuzzyMatchField v queryTokens query = Some (score, indices)"
    using fuzzyMatchField_returns [OF assms, of v queryTokens] by auto
  with fld show ?thesis by (simp add: add_match_def)
qed

lemma searchTask_returns: "\<exists>ms. searchTask task query tgs = Some ms"
proof (cases "tokenize query = []")
  case True
  then show ?thesis by (simp add: searchTask_def)
next
  case False
  then have "query \<noteq> []" by auto
  have "\<exists>ms. fold_option (add_match (tokenize query) query)
               ((''title'', task_title task, 10) # other_fields task tgs) [] = Some ms"
    by (rule fold_option_returns) (rule add_match_returns [OF \<open>query \<noteq> []\<close>])
  then show ?thesis using False by (simp add: searchTask_def Let_def del: fold_option.simps)
qed

section \<open>Queries without tokens\<close>

lemma fold_option_unchanged:
  assumes "\<And>x. x \<in> set xs \<Longrightarrow> f x s = Some s"
  shows "fold_option f xs s = Some s"
  using assms by (induction xs) simp_all

text \<open>
  C10: when the tokenization of the query yields no tokens, fuzzySearchTasks returns
  the empty list of results, whatever the board holds.
\<close>
theorem token_empty_query_matches_nothing:
  assumes "tokenize query = []"
  shows "fuzzySearchTasks cols query tgs = Some []"
proof -
  have task: "add_result query tgs column task [] = Some []" for column :: "'a column_with_tasks_scheme" and task
    using assms by (simp add: add_result_def searchTask_def)
  have col: "fold_option (add_result query tgs column) (col_tasks column) [] = Some []"
    for column :: "'a column_with_tasks_scheme"
    by (rule fold_option_unchanged) (rule task)
  have "collect_results cols query tgs = Some []"
    unfolding collect_results_def by (rule fold_option_unchanged) (rule col)
  then show ?thesis by (simp add: fuzzySearchTasks_def)
qed

theorem token_empty_query_matches_nothing_witness:
  "tokenize ''?!'' = [] \<and> trim ''?!'' = ''?!'' \<and>
   map task_title (concat (map col_tasks (columnsWithTasks ex_board_punct))) = [''Really?!''] \<and>
   js_includes (toLowerCase ''Really?!'') (toLowerCase ''?!'') \<and>
   fuzzySearchTasks (columnsWithTasks ex_board_punct) ''?!'' (tags ex_board_punct) = Some []"
proof -
  have h: "tokenize ''?!'' = []" by code_simp
  have "trim ''?!'' = ''?!''" by code_simp
  moreover have "map task_title (concat (map col_tasks (columnsWithTasks ex_board_punct))) = [''Really?!'']"
    by (simp add: columnsWithTasks_def ex_board_punct_def addTask_def new_task_def
        defaultState_def defaultColumns_def)
  moreover have "js_includes (toLowerCase ''Really?!'') (toLowerCase ''?!'')" by code_simp
  ultimately show ?thesis
    using h token_empty_query_matches_nothing
            [OF h, of "columnsWithTasks ex_board_punct" "tags ex_board_punct"]
    by simp
qed

section \<open>completedAt and the status done\<close>

lemma update_one_completed:
  assumes "(task_completedAt t \<noteq> None) = (task_status t = Some Done)" "u_completedAt u = None"
    "u_status u \<noteq> Some None"
  shows "task_completedAt (update_one now u t) =
           (if task_status (update_one now u t) = Some Done
            then (if task_status t = Some Done then task_completedAt t else Some now)
            else None)"
  using assms
  by (cases "u_status u") (auto simp: update_one_def merge_updates_def override_def Let_def)

lemma set_status_one_completed:
  assumes "(task_completedAt t \<noteq> None) = (task_status t = Some Done)"
  shows "task_completedAt (set_status_one now st t) =
           (if task_status (set_status_one now st t) = Some Done
            then (if task_status t = Some Done then task_completedAt t else Some now)
            else None)"
  using assms by (auto simp: set_status_one_def Let_def)

lemma apply_op_length: "length (tasks (apply_op op b)) = length (tasks b)"
  by (cases op) (simp_all add: updateTask_def setColumnTasksStatus_def length_map_indexed)

lemma apply_op_nth:
  assumes "completed_iff_done b" "\<not> carries_completedAt op" "\<not> carries_undefined_status op"
    "i < length (tasks b)"
  shows "task_completedAt (tasks (apply_op op b) ! i) =
           (if task_status (tasks (apply_op op b) ! i) = Some Done
            then (if task_status (tasks b ! i) = Some Done then task_completedAt (tasks b ! i)
                  else Some (op_clock op i))
            else None)"
proof -
  let ?t = "tasks b ! i"
  have inv: "(task_completedAt ?t \<noteq> None) = (task_status ?t = Some Done)"
    using assms(1,4) by (simp add: completed_iff_done_def)
  show ?thesis
  proof (cases op)
    case (UpdateTask now taskId u)
    with assms(2,3) have u: "u_completedAt u = None" and us: "u_status u \<noteq> Some None"
      by simp_all
    show ?thesis
    proof (cases "task_id ?t = taskId")
      case True
      then show ?thesis
        using UpdateTask assms(4) update_one_completed [OF inv u us, of "now i"]
        by (simp add: updateTask_def nth_map_indexed)
    next
      case False
      then show ?thesis
        using UpdateTask assms(4) inv
        by (auto simp: updateTask_def nth_map_indexed)
    qed
  next
    case (SetColumnTasksStatus now columnId st)
    show ?thesis
    proof (cases "task_columnId ?t = columnId")
      case True
      then show ?thesis
        using SetColumnTasksStatus assms(4) set_status_one_completed [OF inv, of "now i" st]
        by (simp add: setColumnTasksStatus_def nth_map_indexed)
    next
      case False
      then show ?thesis
        using SetColumnTasksStatus assms(4) inv
        by (auto simp: setColumnTasksStatus_def nth_map_indexed)
    qed
  qed
qed

lemma apply_op_invariant:
  assumes "completed_iff_done b" "\<not> carries_completedAt op" "\<not> carries_undefined_status op"
  shows "completed_iff_done (apply_op op b)"
  unfolding completed_iff_done_def
proof
  fix t assume "t \<in> set (tasks (apply_op op b))"
  then obtain i where i: "i < length (tasks b)" and t: "t = tasks (apply_op op b) ! i"
    by (auto simp: in_set_conv_nth apply_op_length)
  have inv: "(task_completedAt (tasks b ! i) \<noteq> None) = (task_status (tasks b ! i) = Some Done)"
    using assms(1) i by (simp add: completed_iff_done_def)
  from apply_op_nth [OF assms i] inv
  show "(task_completedAt t \<noteq> None) = (task_status t = Some Done)"
    unfolding t by (auto split: if_splits)
qed

lemma apply_op_times:
  assumes "completed_iff_done b" "\<not> carries_completedAt op" "\<not> carries_undefined_status op"
  shows "map task_completedAt (tasks (apply_op op b)) =
           transition_step (op_clock op) (tasks b) (tasks (apply_op op b))
             (map task_completedAt (tasks b))"
proof (rule nth_equalityI)
  show "length (map task_completedAt (tasks (apply_op op b))) =
          length (transition_step (op_clock op) (tasks b) (tasks (apply_op op b))
             (map task_completedAt (tasks b)))"
    by (simp add: transition_step_def)
next
  fix i assume "i < length (map task_completedAt (tasks (apply_op op b)))"
  then have i: "i < length (tasks b)" by (simp add: apply_op_length)
  from apply_op_nth [OF assms i] i
  show "map task_completedAt (tasks (apply_op op b)) ! i =
          transition_step (op_clock op) (tasks b) (tasks (apply_op op b))
             (map task_completedAt (tasks b)) ! i"
    by (simp add: transition_step_def apply_op_length)
qed

lemma undefined_status_keeps_completedAt:
  \<comment> \<open>\<open>updateTask('task-1', {status: undefined})\<close> on a task that is done: the spread
      writes the status, and neither branch of the status rule is taken\<close>
  "map (\<lambda>t. (task_status t, task_completedAt t))
     (tasks (run_ops [UpdateTask (\<lambda>i. 10) ''task-1'' (no_updates\<lparr>u_status := Some (Some Done)\<rparr>),
                      UpdateTask (\<lambda>i. 20) ''task-1'' (no_updates\<lparr>u_status := Some None\<rparr>)]
               ex_board1))
   = [(None, Some 10)]"
  by (simp add: ex_board1_def addTask_def new_task_def defaultState_def
      updateTask_def map_indexed_def update_one_def merge_updates_def override_def
      no_updates_def Let_def)

text \<open>
  C3 (as amended): starting from a board in which every task has completedAt set if and
  only if its status is done, after every sequence of updateTask and setColumnTasksStatus
  calls in which no updateTask call passes the key completedAt itself or the key status
  with the value undefined, every task still has completedAt set if and only if its
  status is done, and completedAt is the time of the most recent transition of the task
  into done (for a task that was done from the start, the time it had at the start).
\<close>
theorem completedAt_invariant:
  assumes "completed_iff_done b"
    "\<forall>op \<in> set ops. \<not> carries_completedAt op \<and> \<not> carries_undefined_status op"
  shows "completed_iff_done (run_ops ops b) \<and>
         map task_completedAt (tasks (run_ops ops b)) =
           last_transition_times ops b (map task_completedAt (tasks b))"
  using assms
proof (induction ops arbitrary: b)
  case Nil
  then show ?case by simp
next
  case (Cons op ops)
  from Cons.prems have op: "\<not> carries_completedAt op" "\<not> carries_undefined_status op"
    and rest: "\<forall>op \<in> set ops. \<not> carries_completedAt op \<and> \<not> carries_undefined_status op"
    by simp_all
  have inv: "completed_iff_done (apply_op op b)"
    using Cons.prems(1) op by (rule apply_op_invariant)
  from Cons.IH [OF inv rest] apply_op_times [OF Cons.prems(1) op]
  show ?case by simp
qed

lemma ex_board3_eval:
  "tasks ex_board3 =
     [new_task 1 1 ''col-1'' ''a'' defaultState,
      (new_task 2 2 ''col-1'' ''b'' defaultState)\<lparr>task_order := 1\<rparr>,
      (new_task 3 3 ''col-1'' ''c'' defaultState)\<lparr>task_order := 2\<rparr>]"
  by (simp add: ex_board3_def addTask_def new_task_def defaultState_def)

theorem completedAt_invariant_witness:
  "map carries_completedAt ex_ops = [False, False, False] \<and>
   map carries_undefined_status ex_ops = [False, False, False] \<and>
   map task_status (tasks (run_ops ex_ops ex_board3)) = [Some Done, Some Paused, Some Done] \<and>
   map task_completedAt (tasks (run_ops ex_ops ex_board3)) = [Some 10, None, Some 22] \<and>
   last_transition_times ex_ops ex_board3 (map task_completedAt (tasks ex_board3))
     = [Some 10, None, Some 22]"
proof -
  have h1: "completed_iff_done ex_board3"
    by (simp add: completed_iff_done_def ex_board3_eval new_task_def)
  have h2: "\<forall>op \<in> set ex_ops. \<not> carries_completedAt op \<and> \<not> carries_undefined_status op"
    by (simp add: ex_ops_def no_updates_def)
  have run: "map (\<lambda>t. (task_status t, task_completedAt t)) (tasks (run_ops ex_ops ex_board3))
               = [(Some Done, Some 10), (Some Paused, None), (Some Done, Some 22)]"
    by (simp add: ex_ops_def updateTask_def setColumnTasksStatus_def map_indexed_def
        ex_board3_eval new_task_def update_one_def set_status_one_def merge_updates_def
        override_def no_updates_def Let_def)
  have st: "map task_status (tasks (run_ops ex_ops ex_board3))
              = [Some Done, Some Paused, Some Done]"
    using arg_cong [OF run, of "map fst"] by (simp add: comp_def)
  have ct: "map task_completedAt (tasks (run_ops ex_ops ex_board3)) = [Some 10, None, Some 22]"
    using arg_cong [OF run, of "map snd"] by (simp add: comp_def)
  have h3: "map carries_completedAt ex_ops = [False, False, False]"
    by (simp add: ex_ops_def no_updates_def)
  have h4: "map carries_undefined_status ex_ops = [False, False, False]"
    by (simp add: ex_ops_def no_updates_def)
  from completedAt_invariant [OF h1 h2] h3 h4 st ct show ?thesis by simp
qed

theorem completedAt_invariant_counterexample:
  "\<not> (\<forall>b ops. completed_iff_done b \<longrightarrow> completed_iff_done (run_ops ops b))"
proof
  assume claim: "\<forall>b ops. completed_iff_done b \<longrightarrow> completed_iff_done (run_ops ops b)"
  let ?ops = "[UpdateTask (\<lambda>i. 5) ''task-1'' (no_updates\<lparr>u_completedAt := Some (Some 5)\<rparr>)]"
  have "completed_iff_done ex_board1"
    by (simp add: completed_iff_done_def ex_board1_def addTask_def new_task_def defaultState_def)
  with claim have "completed_iff_done (run_ops ?ops ex_board1)" by blast
  then show False
    by (simp add: completed_iff_done_def ex_board1_def addTask_def new_task_def defaultState_def
        updateTask_def map_indexed_def update_one_def merge_updates_def override_def
        no_updates_def Let_def)
qed

section \<open>Order contiguity after moveTask\<close>

lemma ex_board3_tasks:
  "map (\<lambda>t. (task_id t, task_columnId t, task_order t)) (tasks ex_board3) =
     [(''task-1'', ''col-1'', 0), (''task-2'', ''col-1'', 1), (''task-3'', ''col-1'', 2)]"
  by (simp add: ex_board3_def addTask_def new_task_def defaultState_def)

lemma ex_board_gap_tasks:
  "map (\<lambda>t. (task_id t, task_columnId t, task_order t)) (tasks ex_board_gap) =
     [(''task-1'', ''col-1'', 0), (''task-3'', ''col-1'', 2)]"
  by (simp add: ex_board_gap_def deleteTask_def ex_board3_def addTask_def new_task_def
      defaultState_def)









section \<open>Ranking of an exact match\<close>

lemma fold_option_append:
  assumes "\<And>x s. x \<in> set xs \<Longrightarrow> f x s = Some (s @ g x)"
  shows "fold_option f xs s = Some (s @ concat (map g xs))"
  using assms by (induction xs arbitrary: s) simp_all

lemma add_result_append:
  "add_result query tgs column task results = Some (results @ result_for query tgs column task)"
proof -
  obtain ms where "searchTask task query tgs = Some ms"
    using searchTask_returns by blast
  then show ?thesis by (simp add: add_result_def result_for_def)
qed

lemma collect_results_eq:
  "collect_results cols query tgs =
     Some (concat (map (\<lambda>column. concat (map (result_for query tgs column) (col_tasks column))) cols))"
proof -
  have inner: "fold_option (add_result query tgs column) (col_tasks column) results =
                 Some (results @ concat (map (result_for query tgs column) (col_tasks column)))"
    for column :: "'a column_with_tasks_scheme" and results
    by (rule fold_option_append) (rule add_result_append)
  have "fold_option
          (\<lambda>column results. fold_option (add_result query tgs column) (col_tasks column) results)
          cols [] =
        Some ([] @ concat (map (\<lambda>column. concat (map (result_for query tgs column) (col_tasks column))) cols))"
    by (rule fold_option_append) (rule inner)
  then show ?thesis by (simp add: collect_results_def)
qed

lemma add_match_fields:
  assumes "fold_option (add_match queryTokens query) flds ms = Some ms'"
  shows "\<exists>extra. ms' = ms @ extra \<and> (\<forall>m \<in> set extra. m_field m \<in> fst ` set flds)"
  using assms
proof (induction flds arbitrary: ms)
  case Nil
  then show ?case by simp
next
  case (Cons fld flds)
  obtain name v weight where fld: "fld = (name, v, weight)" by (cases fld)
  from Cons.prems obtain ms1 where step: "add_match queryTokens query fld ms = Some ms1"
    and rest: "fold_option (add_match queryTokens query) flds ms1 = Some ms'"
    by (auto split: option.splits)
  from step fld have "\<exists>e1. ms1 = ms @ e1 \<and> (\<forall>m \<in> set e1. m_field m = name)"
    by (auto simp: add_match_def split: option.splits if_splits)
  then obtain e1 where e1: "ms1 = ms @ e1" "\<forall>m \<in> set e1. m_field m = name" by blast
  from Cons.IH [OF rest] obtain e2
    where e2: "ms' = ms1 @ e2" "\<forall>m \<in> set e2. m_field m \<in> fst ` set flds" by blast
  have "ms' = ms @ (e1 @ e2)" using e1(1) e2(1) by simp
  moreover have "\<forall>m \<in> set (e1 @ e2). m_field m \<in> fst ` set (fld # flds)"
    using e1(2) e2(2) fld by auto
  ultimately show ?case by blast
qed

lemma other_fields_names: "f \<in> set (other_fields task tgs) \<Longrightarrow> fst f \<noteq> ''title''"
  by (auto simp: other_fields_def split: option.splits if_splits)

lemma title_only_matches:
  assumes only: "only_title_matches task query tgs"
    and tok: "tokenize query \<noteq> []"
    and title: "fuzzyMatchField (task_title task) (tokenize query) query = Some (score, indices)"
    and pos: "score > 0"
  shows "searchTask task query tgs =
           Some [\<lparr>m_field = ''title'', m_value = task_title task, m_score = score * 10,
                  m_indices = indices\<rparr>]"
proof -
  let ?m = "\<lparr>m_field = ''title'', m_value = task_title task, m_score = score * 10,
             m_indices = indices\<rparr>"
  obtain ms where ms: "searchTask task query tgs = Some ms"
    using searchTask_returns by blast
  have first: "add_match (tokenize query) query (''title'', task_title task, 10) [] = Some [?m]"
    using title pos by (simp add: add_match_def)
  from ms tok first
  have "fold_option (add_match (tokenize query) query) (other_fields task tgs) [?m] = Some ms"
    by (simp add: searchTask_def Let_def)
  from add_match_fields [OF this] obtain extra
    where extra: "ms = [?m] @ extra" "\<forall>m \<in> set extra. m_field m \<in> fst ` set (other_fields task tgs)"
    by blast
  have "extra = []"
  proof (rule ccontr)
    assume "extra \<noteq> []"
    then obtain m where m: "m \<in> set extra" by (cases extra) auto
    with extra(2) other_fields_names have "m_field m \<noteq> ''title''" by fastforce
    moreover from only ms extra(1) m have "m_field m = ''title''"
      by (simp add: only_title_matches_def list_all_iff)
    ultimately show False by simp
  qed
  with ms extra(1) show ?thesis by simp
qed

lemma result_for_title_only:
  assumes "searchTask task query tgs = Some [m]"
  shows "result_for query tgs column task =
           [\<lparr>r_taskId = task_id task, r_columnId = col_id column, r_task = task,
             r_matches = [m], r_totalScore = m_score m\<rparr>]"
  using assms by (simp add: result_for_def add_result_def)

lemma result_for_task: "r \<in> set (result_for query tgs column task) \<Longrightarrow> r_task r = task"
  by (auto simp: result_for_def add_result_def split: option.splits if_splits)

lemma ranked_before:
  fixes key :: "'a \<Rightarrow> int"
  assumes "sorted (map key rs)" "i < length rs" "j < length rs" "key (rs ! i) < key (rs ! j)"
  shows "i < j"
proof (rule ccontr)
  assume "\<not> i < j"
  then have "j \<le> i" by simp
  with assms(1,2) have "map key rs ! j \<le> map key rs ! i"
    by (simp add: sorted_iff_nth_mono)
  with assms(2,3,4) show False by simp
qed

lemma title_scores:
  "fuzzyMatchField ''Fix bug'' (tokenize ''Fix bug'') ''Fix bug'' = Some (100, [(0, 7)])"
  "fuzzyMatchField ''Fix the button bug'' (tokenize ''Fix bug'') ''Fix bug''
     = Some (60, [(0, 3), (15, 18)])"
  "tokenize ''Fix bug'' = [''fix'', ''bug'']"
  "trim ''Fix bug'' = ''Fix bug''"
  by code_simp+

text \<open>
  C5: on every board that holds a task titled "Fix bug" and a task titled
  "Fix the button bug", neither of which matches the query in another field, the search
  for "Fix bug" returns both, the first with the total score 1000 and the second with
  600, and every result of the first stands before every result of the second.
\<close>
theorem exact_match_ranks_first:
  fixes cols :: "'a column_with_tasks_scheme list"
  assumes t1: "task_title t1 = ''Fix bug''" and t2: "task_title t2 = ''Fix the button bug''"
    and o1: "only_title_matches t1 ''Fix bug'' tgs"
    and o2: "only_title_matches t2 ''Fix bug'' tgs"
    and c1: "c1 \<in> set cols" "t1 \<in> set (col_tasks c1)"
    and c2: "c2 \<in> set cols" "t2 \<in> set (col_tasks c2)"
  shows "\<exists>results. fuzzySearchTasks cols ''Fix bug'' tgs = Some results \<and>
           (\<exists>i j. i < j \<and> j < length results \<and>
                  r_task (results ! i) = t1 \<and> r_task (results ! j) = t2) \<and>
           (\<forall>i j. i < length results \<and> j < length results \<and>
                  r_task (results ! i) = t1 \<and> r_task (results ! j) = t2 \<longrightarrow>
                  r_totalScore (results ! i) = 1000 \<and> r_totalScore (results ! j) = 600 \<and> i < j)"
proof -
  let ?q = "''Fix bug''"
  let ?raw = "concat (map (\<lambda>column. concat (map (result_for ?q tgs column) (col_tasks column))) cols)"
  let ?key = "\<lambda>r. - r_totalScore r"
  let ?rs = "sort_key ?key ?raw"
  have fs: "fuzzySearchTasks cols ?q tgs = Some ?rs"
    by (simp add: fuzzySearchTasks_def collect_results_eq title_scores(4))
  have tok: "tokenize ?q \<noteq> []" by (simp add: title_scores(3))
  have s1: "searchTask t1 ?q tgs =
              Some [\<lparr>m_field = ''title'', m_value = task_title t1, m_score = 100 * 10,
                     m_indices = [(0, 7)]\<rparr>]"
    by (rule title_only_matches [OF o1 tok]) (simp_all add: t1 title_scores(1))
  have s2: "searchTask t2 ?q tgs =
              Some [\<lparr>m_field = ''title'', m_value = task_title t2, m_score = 60 * 10,
                     m_indices = [(0, 3), (15, 18)]\<rparr>]"
    by (rule title_only_matches [OF o2 tok]) (simp_all add: t2 title_scores(2))
  have mem: "r \<in> set ?rs \<Longrightarrow> \<exists>c \<in> set cols. \<exists>t \<in> set (col_tasks c). r \<in> set (result_for ?q tgs c t)"
    for r by auto
  have score1: "r_totalScore r = 1000" if "r \<in> set ?rs" "r_task r = t1" for r
  proof -
    from mem [OF that(1)] obtain c :: "'a column_with_tasks_scheme" and t
      where r: "r \<in> set (result_for ?q tgs c t)" by blast
    with that(2) have "t = t1" by (auto dest: result_for_task)
    with r show ?thesis by (simp add: result_for_title_only [OF s1])
  qed
  have score2: "r_totalScore r = 600" if "r \<in> set ?rs" "r_task r = t2" for r
  proof -
    from mem [OF that(1)] obtain c :: "'a column_with_tasks_scheme" and t
      where r: "r \<in> set (result_for ?q tgs c t)" by blast
    with that(2) have "t = t2" by (auto dest: result_for_task)
    with r show ?thesis by (simp add: result_for_title_only [OF s2])
  qed
  have order: "i < j" "r_totalScore (?rs ! i) = 1000" "r_totalScore (?rs ! j) = 600"
    if "i < length ?rs" "j < length ?rs" "r_task (?rs ! i) = t1" "r_task (?rs ! j) = t2" for i j
  proof -
    from that(1,3) show a: "r_totalScore (?rs ! i) = 1000" by (intro score1 nth_mem)
    from that(2,4) show b: "r_totalScore (?rs ! j) = 600" by (intro score2 nth_mem)
    have "sorted (map ?key ?rs)" by (rule sorted_sort_key)
    then show "i < j" using that(1,2)
      by (rule ranked_before) (simp add: a b)
  qed
  have "\<exists>r \<in> set ?rs. r_task r = t1"
    using c1 by (auto simp: result_for_title_only [OF s1] intro!: bexI [of _ c1] bexI [of _ t1])
  then obtain r1 where r1: "r1 \<in> set ?rs" "r_task r1 = t1" by blast
  from r1(1) [unfolded in_set_conv_nth] r1(2)
  obtain i where i: "i < length ?rs" "r_task (?rs ! i) = t1" by blast
  have "\<exists>r \<in> set ?rs. r_task r = t2"
    using c2 by (auto simp: result_for_title_only [OF s2] intro!: bexI [of _ c2] bexI [of _ t2])
  then obtain r2 where r2: "r2 \<in> set ?rs" "r_task r2 = t2" by blast
  from r2(1) [unfolded in_set_conv_nth] r2(2)
  obtain j where j: "j < length ?rs" "r_task (?rs ! j) = t2" by blast
  from order(1) [OF i(1) j(1) i(2) j(2)] i j
  have "\<exists>i j. i < j \<and> j < length ?rs \<and> r_task (?rs ! i) = t1 \<and> r_task (?rs ! j) = t2"
    by blast
  with fs order show ?thesis by blast
qed

theorem exact_match_ranks_first_witness:
  "task_title (tasks ex_board_fix ! 1) = ''Fix bug'' \<and>
   task_title (tasks ex_board_fix ! 0) = ''Fix the button bug'' \<and>
   only_title_matches (tasks ex_board_fix ! 1) ''Fix bug'' (tags ex_board_fix) \<and>
   only_title_matches (tasks ex_board_fix ! 0) ''Fix bug'' (tags ex_board_fix) \<and>
   map (map task_title \<circ> col_tasks) (columnsWithTasks ex_board_fix)
     = [[''Fix the button bug'', ''Fix bug''], [], []] \<and>
   (\<exists>results i j.
       fuzzySearchTasks (columnsWithTasks ex_board_fix) ''Fix bug'' (tags ex_board_fix)
         = Some results \<and>
       i < j \<and> j < length results \<and>
       r_task (results ! i) = tasks ex_board_fix ! 1 \<and>
       r_task (results ! j) = tasks ex_board_fix ! 0 \<and>
       r_totalScore (results ! i) = 1000 \<and> r_totalScore (results ! j) = 600)"
proof -
  let ?t1 = "tasks ex_board_fix ! 1" and ?t2 = "tasks ex_board_fix ! 0"
  let ?cols = "columnsWithTasks ex_board_fix"
  have h1: "task_title ?t1 = ''Fix bug''" by code_simp
  have h2: "task_title ?t2 = ''Fix the button bug''" by code_simp
  have h3: "only_title_matches ?t1 ''Fix bug'' (tags ex_board_fix)" by code_simp
  have h4: "only_title_matches ?t2 ''Fix bug'' (tags ex_board_fix)" by code_simp
  have h5: "?cols ! 0 \<in> set ?cols"
    by (simp add: columnsWithTasks_def ex_board_fix_def addTask_def defaultState_def
        defaultColumns_def)
  have tasks0: "col_tasks (?cols ! 0) = tasks ex_board_fix"
    by (simp add: columnsWithTasks_def ex_board_fix_def addTask_def new_task_def
        defaultState_def defaultColumns_def)
  have len: "length (tasks ex_board_fix) = 2"
    by (simp add: ex_board_fix_def addTask_def defaultState_def)
  have h6: "?t1 \<in> set (col_tasks (?cols ! 0))" "?t2 \<in> set (col_tasks (?cols ! 0))"
    unfolding tasks0 using len by simp_all
  have cols: "map (map task_title \<circ> col_tasks) ?cols = [[''Fix the button bug'', ''Fix bug''], [], []]"
    by (simp add: columnsWithTasks_def ex_board_fix_def addTask_def new_task_def
        defaultState_def defaultColumns_def)
  from exact_match_ranks_first [OF h1 h2 h3 h4 h5 h6(1) h5 h6(2)]
  obtain results where r: "fuzzySearchTasks ?cols ''Fix bug'' (tags ex_board_fix) = Some results"
    and ex: "\<exists>i j. i < j \<and> j < length results \<and> r_task (results ! i) = ?t1 \<and> r_task (results ! j) = ?t2"
    and all: "\<forall>i j. i < length results \<and> j < length results \<and>
                  r_task (results ! i) = ?t1 \<and> r_task (results ! j) = ?t2 \<longrightarrow>
                  r_totalScore (results ! i) = 1000 \<and> r_totalScore (results ! j) = 600 \<and> i < j"
    by blast
  from ex obtain i j where ij: "i < j" "j < length results" "r_task (results ! i) = ?t1"
    "r_task (results ! j) = ?t2" by blast
  then have "i < length results" by simp
  with all ij have "r_totalScore (results ! i) = 1000" "r_totalScore (results ! j) = 600"
    by blast+
  with r ij h1 h2 h3 h4 cols show ?thesis by blast
qed

section \<open>The decoder\<close>

text \<open>
  C6: for every payload, decompressState returns a value and throws nothing; an object
  is returned as it is, a string is decoded as base64, gzip and JSON, if that fails
  parsed as plain JSON, and if that fails too the default board is returned.
\<close>
theorem decoder_total:
  "decompressState l d = Inr (decoder_fallback l d)"
proof (cases d)
  case (PObject v)
  then show ?thesis by (simp add: decompressState_def decoder_fallback_def try_catch_def)
next
  case (PText s)
  show ?thesis
  proof (cases "gunzip_payload l s")
    case (Inr v)
    with PText show ?thesis
      by (simp add: decompressState_def decoder_fallback_def try_catch_def)
  next
    case (Inl e)
    with PText show ?thesis
      by (cases "json_parse l s")
         (simp_all add: decompressState_def decoder_fallback_def try_catch_def then_do_def)
  qed
qed

lemma char_codes_inverse: "char_codes (map (\<lambda>b. char_of (unat b)) z) = z"
proof -
  have "(of_nat (of_char (char_of (unat b) :: char)) :: byte) = b" for b :: byte
  proof -
    have "unat b < 256" using unsigned_less [of b, where 'a = nat] by simp
    then have "(of_char (char_of (unat b) :: char) :: nat) = unat b" by simp
    then show ?thesis by simp
  qed
  then show ?thesis by (simp add: char_codes_def comp_def)
qed

lemma text_of_codes: "map (\<lambda>b. char_of (unat b)) (char_codes t) = t"
proof -
  have "char_of (unat (of_nat (of_char c) :: byte)) = c" for c :: char
  proof -
    have "(of_char c :: nat) < 256" by simp
    then have "unat (of_nat (of_char c) :: byte) = of_char c"
      by (simp add: unat_of_nat)
    then show ?thesis by simp
  qed
  then show ?thesis by (simp add: char_codes_def comp_def)
qed

theorem decoder_total_witness:
  "decompressState ex_libs (PObject (Other ''[]'')) = Inr (Other ''[]'') \<and>
   decompressState ex_libs (PText ''={legacy}'') = Inr (Board ex_legacy) \<and>
   decompressState ex_libs (PText ''{legacy}'') = Inr (Board ex_legacy) \<and>
   decompressState ex_libs (PText ''=?'') = Inr (Board (to_stored defaultState)) \<and>
   decompressState ex_libs (PText ''?'') = Inr (Board (to_stored defaultState))"
proof -
  have "decoder_fallback ex_libs (PObject (Other ''[]'')) = Other ''[]''"
    by (simp add: decoder_fallback_def)
  moreover have "decoder_fallback ex_libs (PText ''={legacy}'') = Board ex_legacy"
    by (simp add: decoder_fallback_def gunzip_payload_def then_do_def ex_libs_def ex_parse_def
        text_of_codes)
  moreover have "decoder_fallback ex_libs (PText ''{legacy}'') = Board ex_legacy"
    by (simp add: decoder_fallback_def gunzip_payload_def then_do_def ex_libs_def ex_parse_def)
  moreover have "decoder_fallback ex_libs (PText ''=?'') = Board (to_stored defaultState)"
    by (simp add: decoder_fallback_def gunzip_payload_def then_do_def ex_libs_def ex_parse_def
        text_of_codes)
  moreover have "decoder_fallback ex_libs (PText ''?'') = Board (to_stored defaultState)"
    by (simp add: decoder_fallback_def gunzip_payload_def then_do_def ex_libs_def ex_parse_def)
  ultimately show ?thesis
    using decoder_total [of ex_libs] by simp
qed

section \<open>Highlight coverage\<close>

lemma js_slice_adjacent:
  assumes "0 \<le> l" "l \<le> s"
  shows "take (rel_index l (length t)) t @ js_slice t l s = take (rel_index s (length t)) t"
proof -
  let ?a = "rel_index l (length t)" and ?b = "rel_index s (length t)"
  have ab: "?a \<le> ?b" using assms by (auto simp: rel_index_def)
  have "take ?b t = take ?a (take ?b t) @ drop ?a (take ?b t)"
    by (simp only: append_take_drop_id)
  also have "take ?a (take ?b t) = take ?a t" using ab by (simp add: min_def)
  also have "drop ?a (take ?b t) = take (?b - ?a) (drop ?a t)" by (simp add: drop_take)
  finally show ?thesis by (simp add: js_slice_def Let_def)
qed

lemma highlight_loop_covers:
  assumes "ordered_from l indices" "0 \<le> l"
    and "concat (map seg_text result) = take (rel_index l (length t)) t"
    and "highlight_loop t indices (result, l) = (result', l')"
  shows "concat (map seg_text result') = take (rel_index l' (length t)) t \<and> l \<le> l'"
  using assms
proof (induction indices arbitrary: result l)
  case Nil
  then show ?case by simp
next
  case (Cons p rest)
  obtain s e where p: "p = (s, e)" by (cases p)
  from Cons.prems(1) p have le: "l \<le> s" "s \<le> e" and ord: "ordered_from e rest" by simp_all
  let ?mid = "(if s > l then result @ [\<lparr>seg_text = js_slice t l s, highlight = False\<rparr>] else result)"
  let ?r = "?mid @ [\<lparr>seg_text = js_slice t s e, highlight = True\<rparr>]"
  have mid: "concat (map seg_text ?mid) = take (rel_index s (length t)) t"
  proof (cases "s > l")
    case True
    then show ?thesis using Cons.prems(3) js_slice_adjacent [OF Cons.prems(2) le(1), of t] by simp
  next
    case False
    with le have "s = l" by simp
    then show ?thesis using False Cons.prems(3) by simp
  qed
  have s0: "0 \<le> s" using Cons.prems(2) le by simp
  have r: "concat (map seg_text ?r) = take (rel_index e (length t)) t"
    using mid js_slice_adjacent [OF s0 le(2), of t] by simp
  have e0: "0 \<le> e" using s0 le by simp
  have run: "highlight_loop t rest (?r, e) = (result', l')"
    using Cons.prems(4) p by simp
  from Cons.IH [OF ord e0 r run] le show ?case by simp
qed

lemma ordered_from_append:
  "ordered_from l (xs @ [(s, e)]) =
     (ordered_from l xs \<and> (if xs = [] then l else snd (last xs)) \<le> s \<and> s \<le> e)"
proof (induction xs arbitrary: l)
  case Nil
  then show ?case by simp
next
  case (Cons x xs)
  obtain a b where x: "x = (a, b)" by (cases x)
  show ?case using Cons.IH [of b] by (auto simp: x)
qed

lemma merge_loop_ordered:
  assumes "merged \<noteq> []" "ordered_from 0 merged"
    and "\<forall>r \<in> set rest. fst r \<le> snd r"
  shows "ordered_from 0 (merge_loop merged rest)"
  using assms
proof (induction rest arbitrary: merged)
  case Nil
  then show ?case by simp
next
  case (Cons current rest)
  obtain s e where cur: "current = (s, e)" by (cases current)
  obtain ms a b where m: "merged = ms @ [(a, b)]"
    using Cons.prems(1) by (metis append_butlast_last_id surj_pair)
  from Cons.prems(2) m have ms: "ordered_from 0 ms"
    and ab: "(if ms = [] then 0 else snd (last ms)) \<le> a" "a \<le> b"
    by (simp_all add: ordered_from_append)
  from Cons.prems(3) cur have se: "s \<le> e" by simp
  have rest: "\<forall>r \<in> set rest. fst r \<le> snd r" using Cons.prems(3) by simp
  show ?case
  proof (cases "s \<le> b")
    case True
    let ?merged = "ms @ [(a, max b e)]"
    have "ordered_from 0 ?merged" using ms ab by (simp add: ordered_from_append)
    moreover have "?merged \<noteq> []" by simp
    ultimately have "ordered_from 0 (merge_loop ?merged rest)"
      using rest by (intro Cons.IH) simp_all
    then show ?thesis using True by (simp add: m cur)
  next
    case False
    let ?merged = "merged @ [(s, e)]"
    have "snd (last merged) = b" using m by simp
    then have "ordered_from 0 ?merged"
      using Cons.prems(1,2) False se by (simp add: ordered_from_append)
    moreover have "?merged \<noteq> []" by simp
    ultimately have "ordered_from 0 (merge_loop ?merged rest)"
      using rest by (intro Cons.IH) simp_all
    then show ?thesis using False by (simp add: m cur)
  qed
qed

text \<open>
  The ranges that mergeIndices returns are well formed, ascending and do not overlap,
  whenever the ranges it is given are well formed.
\<close>
lemma merged_ranges_ordered:
  assumes "\<forall>r \<in> set indices. 0 \<le> fst r \<and> fst r \<le> snd r"
  shows "ordered_from 0 (mergeIndices indices)"
proof (cases "indices = []")
  case True
  then show ?thesis by (simp add: mergeIndices_def)
next
  case False
  let ?sorted = "sort_key fst indices"
  have ne: "?sorted \<noteq> []" using False by (metis length_0_conv length_sort)
  then obtain r rs where srt: "?sorted = r # rs" by (cases ?sorted) auto
  have wf: "\<forall>r \<in> set ?sorted. 0 \<le> fst r \<and> fst r \<le> snd r" using assms by simp
  with srt have r: "0 \<le> fst r" "fst r \<le> snd r" and rs: "\<forall>r \<in> set rs. fst r \<le> snd r"
    by simp_all
  have "ordered_from 0 [r]" using r by (cases r) simp
  then have "ordered_from 0 (merge_loop [r] rs)"
    using rs by (intro merge_loop_ordered) simp_all
  then show ?thesis using False srt by (simp add: mergeIndices_def Let_def)
qed


text \<open>
  C7 (as amended): when the index ranges are well formed, ascending and non-overlapping
  (as the merged ranges of a search match are), the texts of the segments returned by
  highlightMatches, concatenated in order, are the text itself.
\<close>
theorem highlight_coverage:
  "ordered_from 0 indices \<Longrightarrow> concat (map seg_text (highlightMatches text indices)) = text"
proof (cases "indices = []")
  case True
  then show ?thesis by (simp add: highlightMatches_def)
next
  case False
  assume ord: "ordered_from 0 indices"
  obtain result l' where run: "highlight_loop text indices ([], 0) = (result, l')"
    by (cases "highlight_loop text indices ([], 0)")
  have "concat (map seg_text ([] :: segment list)) = take (rel_index 0 (length text)) text"
    by (simp add: rel_index_def)
  from highlight_loop_covers [OF ord _ this run]
  have cov: "concat (map seg_text result) = take (rel_index l' (length text)) text" and l': "0 \<le> l'"
    by simp_all
  show ?thesis
  proof (cases "l' < int (length text)")
    case True
    then show ?thesis using False run cov
      by (simp add: highlightMatches_def js_slice_from_def)
  next
    case False
    then have "rel_index l' (length text) = length text" using l' by (auto simp: rel_index_def)
    then show ?thesis using \<open>indices \<noteq> []\<close> False run cov
      by (simp add: highlightMatches_def)
  qed
qed

theorem highlight_coverage_witness:
  "ordered_from 0 [(1, 3), (5, 6)] \<and>
   map seg_text (highlightMatches ''abcdefg'' [(1, 3), (5, 6)]) = [''a'', ''bc'', ''de'', ''f'', ''g''] \<and>
   concat (map seg_text (highlightMatches ''abcdefg'' [(1, 3), (5, 6)])) = ''abcdefg''"
  using highlight_coverage [of "[(1, 3), (5, 6)]" "''abcdefg''"]
  by (simp add: highlightMatches_def js_slice_def js_slice_from_def rel_index_def)

theorem highlight_coverage_counterexample:
  "\<not> (\<forall>text indices. concat (map seg_text (highlightMatches text indices)) = text)"
proof
  assume "\<forall>text indices. concat (map seg_text (highlightMatches text indices)) = text"
  then have "concat (map seg_text (highlightMatches ''abc'' [(0, 2), (1, 3)])) = ''abc''"
    by blast
  then show False
    by (simp add: highlightMatches_def js_slice_def js_slice_from_def rel_index_def)
qed

section \<open>Generated ids\<close>

lemma create_id: "fst (create op b) = id_of_source (id_source op)"
  by (cases op) (simp_all add: addColumn_def addTask_def addTag_def new_task_def Let_def)

lemma created_ids_eq: "created_ids ops b = map (id_of_source \<circ> id_source) ops"
proof (induction ops arbitrary: b)
  case Nil
  then show ?case by simp
next
  case (Cons op ops)
  obtain i b' where c: "create op b = (i, b')" by (cases "create op b")
  with create_id [of op b] have "i = id_of_source (id_source op)" by simp
  with c Cons.IH [of b'] show ?case by simp
qed

lemma id_of_source_inj: "id_of_source p = id_of_source q \<Longrightarrow> p = q"
proof -
  obtain k n where p: "p = (k, n)" by (cases p)
  obtain k' n' where q: "q = (k', n')" by (cases q)
  assume "id_of_source p = id_of_source q"
  then show ?thesis unfolding p q
    by (cases k; cases k') (auto dest: decimal_inj)
qed

text \<open>
  C8 (as amended): every entity created by addColumn, addTask or addTag receives the id
  made of the prefix of its kind and the reading of Date.now(), and the ids generated
  across a sequence of creations are pairwise distinct exactly when no two creations of
  the same kind read the same value of the clock.
\<close>
theorem generated_ids_distinct:
  "created_ids ops b = map (id_of_source \<circ> id_source) ops \<and>
   distinct (created_ids ops b) = distinct (map id_source ops)"
proof -
  have inj: "inj_on id_of_source A" for A
    by (rule inj_onI) (rule id_of_source_inj)
  have "distinct (map id_of_source ys) = distinct ys" for ys
    by (simp add: distinct_map inj)
  from this [of "map id_source ops"]
  have "distinct (map (id_of_source \<circ> id_source) ops) = distinct (map id_source ops)"
    by (simp only: map_map)
  then show ?thesis by (simp only: created_ids_eq simp_thms)
qed

theorem generated_ids_distinct_witness:
  "distinct (map id_source [AddTask 1 1 ''col-1'' ''a'', AddTag 1 ''Bug'' ''red'', AddTask 2 2 ''col-1'' ''b'']) \<and>
   created_ids [AddTask 1 1 ''col-1'' ''a'', AddTag 1 ''Bug'' ''red'', AddTask 2 2 ''col-1'' ''b''] defaultState
     = [''task-1'', ''tag-1'', ''task-2''] \<and>
   distinct (created_ids [AddTask 1 1 ''col-1'' ''a'', AddTag 1 ''Bug'' ''red'', AddTask 2 2 ''col-1'' ''b''] defaultState)"
  using generated_ids_distinct
    [of "[AddTask 1 1 ''col-1'' ''a'', AddTag 1 ''Bug'' ''red'', AddTask 2 2 ''col-1'' ''b'']" defaultState]
  by simp

theorem generated_ids_distinct_counterexample:
  "\<not> (\<forall>ops b. distinct (created_ids ops b))"
proof
  assume "\<forall>ops b. distinct (created_ids ops b)"
  then have "distinct (created_ids [AddTask 1 1 ''col-1'' ''a'', AddTask 1 1 ''col-1'' ''b''] defaultState)"
    by blast
  then show False
    by (simp add: addTask_def new_task_def Let_def)
qed

section \<open>Frame properties of the keyed mutations\<close>

lemma updateTask_frame:
  "columns (updateTask now taskId u b) = columns b \<and>
   tags (updateTask now taskId u b) = tags b \<and>
   length (tasks (updateTask now taskId u b)) = length (tasks b) \<and>
   (\<forall>i < length (tasks b). task_id (tasks b ! i) \<noteq> taskId \<longrightarrow>
        tasks (updateTask now taskId u b) ! i = tasks b ! i)"
  by (simp add: updateTask_def length_map_indexed nth_map_indexed)

lemma setColumnTasksPriority_frame:
  "columns (setColumnTasksPriority c p b) = columns b \<and>
   tags (setColumnTasksPriority c p b) = tags b \<and>
   length (tasks (setColumnTasksPriority c p b)) = length (tasks b) \<and>
   (\<forall>i < length (tasks b). task_columnId (tasks b ! i) \<noteq> c \<longrightarrow>
        tasks (setColumnTasksPriority c p b) ! i = tasks b ! i)"
  by (simp add: setColumnTasksPriority_def)

lemma deleteTag_frame:
  "columns (deleteTag tagId b) = columns b \<and>
   tags (deleteTag tagId b) = filter (\<lambda>g. tag_id g \<noteq> tagId) (tags b) \<and>
   length (tasks (deleteTag tagId b)) = length (tasks b) \<and>
   (\<forall>i < length (tasks b).
        tasks (deleteTag tagId b) ! i =
          (tasks b ! i)\<lparr>task_tags := task_tags (tasks (deleteTag tagId b) ! i)\<rparr>)"
  by (simp add: deleteTag_def)

text \<open>
  C9: updateTask leaves every task with another id, the columns and the tags as they
  are; setColumnTasksPriority leaves every task of another column as it is; deleteTag
  keeps every other tag as it is (the tags that remain are the old ones without the
  deleted id, in order) and each task of the result is the old task at that position
  with at most its tags field changed.
\<close>
theorem keyed_mutations_frame:
  "(columns (updateTask now taskId u b) = columns b \<and>
    tags (updateTask now taskId u b) = tags b \<and>
    length (tasks (updateTask now taskId u b)) = length (tasks b) \<and>
    (\<forall>i < length (tasks b). task_id (tasks b ! i) \<noteq> taskId \<longrightarrow>
         tasks (updateTask now taskId u b) ! i = tasks b ! i)) \<and>
   (length (tasks (setColumnTasksPriority c p b)) = length (tasks b) \<and>
    (\<forall>i < length (tasks b). task_columnId (tasks b ! i) \<noteq> c \<longrightarrow>
         tasks (setColumnTasksPriority c p b) ! i = tasks b ! i)) \<and>
   (tags (deleteTag tagId b) = filter (\<lambda>g. tag_id g \<noteq> tagId) (tags b) \<and>
    length (tasks (deleteTag tagId b)) = length (tasks b) \<and>
    (\<forall>i < length (tasks b).
         tasks (deleteTag tagId b) ! i =
           (tasks b ! i)\<lparr>task_tags := task_tags (tasks (deleteTag tagId b) ! i)\<rparr>))"
  using updateTask_frame [of now taskId u b] setColumnTasksPriority_frame [of c p b]
    deleteTag_frame [of tagId b]
  by blast

theorem keyed_mutations_frame_witness:
  "1 < length (tasks ex_board3) \<and>
   task_id (tasks ex_board3 ! 1) \<noteq> ''task-1'' \<and>
   tasks (updateTask (\<lambda>i. 7) ''task-1'' (no_updates\<lparr>u_status := Some (Some Done)\<rparr>) ex_board3) ! 1
     = tasks ex_board3 ! 1 \<and>
   task_columnId (tasks ex_board3 ! 1) \<noteq> ''col-2'' \<and>
   tasks (setColumnTasksPriority ''col-2'' High ex_board3) ! 1 = tasks ex_board3 ! 1 \<and>
   tasks (deleteTag ''tag-1'' ex_board3) ! 1 =
     (tasks ex_board3 ! 1)\<lparr>task_tags := task_tags (tasks (deleteTag ''tag-1'' ex_board3) ! 1)\<rparr>"
proof -
  have len: "1 < length (tasks ex_board3)"
    by (simp add: ex_board3_def addTask_def)
  have other_id: "task_id (tasks ex_board3 ! 1) \<noteq> ''task-1''"
    by (simp add: ex_board3_def addTask_def new_task_def defaultState_def nth_append)
  have other_col: "task_columnId (tasks ex_board3 ! 1) \<noteq> ''col-2''"
    by (simp add: ex_board3_def addTask_def new_task_def defaultState_def nth_append)
  from keyed_mutations_frame
         [of "\<lambda>i. 7" "''task-1''" "no_updates\<lparr>u_status := Some (Some Done)\<rparr>" ex_board3
             "''col-2''" High "''tag-1''"]
    len other_id other_col
  show ?thesis by blast
qed

section \<open>Round trip through the codec\<close>

lemma migrate_fixpoint: "(migrateState b = b) = fully_populated b"
proof
  assume fp: "migrateState b = b"
  let ?f = "\<lambda>task. task\<lparr>st_status := Some (or_else (st_status task) NotStarted),
                        st_subtasks := Some (or_else (st_subtasks task) []),
                        st_attachments := Some (or_else (st_attachments task) []),
                        st_tags := Some (or_else (st_tags task) [])\<rparr>"
  from fp have "sb_tags (migrateState b) = sb_tags b" by simp
  then have "Some (or_else (sb_tags b) defaultTags) = sb_tags b"
    by (simp add: migrateState_def Let_def)
  then have tg: "sb_tags b \<noteq> None" by (cases "sb_tags b") simp_all
  from fp have "sb_tasks (migrateState b) = sb_tasks b" by simp
  then have "map ?f (sb_tasks b) = map (\<lambda>t. t) (sb_tasks b)"
    by (simp add: migrateState_def Let_def)
  then have each: "\<forall>t \<in> set (sb_tasks b). ?f t = t"
    unfolding map_eq_conv .
  have "st_status t \<noteq> None \<and> st_subtasks t \<noteq> None \<and> st_attachments t \<noteq> None \<and> st_tags t \<noteq> None"
    if "t \<in> set (sb_tasks b)" for t
  proof -
    from each that have eq: "?f t = t" by blast
    have "st_status (?f t) \<noteq> None" "st_subtasks (?f t) \<noteq> None"
      "st_attachments (?f t) \<noteq> None" "st_tags (?f t) \<noteq> None" by simp_all
    then show ?thesis unfolding eq by simp
  qed
  with tg show "fully_populated b" by (simp add: fully_populated_def list_all_iff)
next
  assume full: "fully_populated b"
  then obtain tg where tg: "sb_tags b = Some tg" by (auto simp: fully_populated_def)
  have "map (\<lambda>task. task\<lparr>st_status := Some (or_else (st_status task) NotStarted),
                        st_subtasks := Some (or_else (st_subtasks task) []),
                        st_attachments := Some (or_else (st_attachments task) []),
                        st_tags := Some (or_else (st_tags task) [])\<rparr>) (sb_tasks b) = sb_tasks b"
    using full by (intro map_idI) (auto simp: fully_populated_def list_all_iff or_else_def)
  with tg show "migrateState b = b" by (simp add: migrateState_def Let_def or_else_def)
qed

lemma compress_then_decompress:
  assumes "libs_round_trip l b"
  shows "\<exists>s. compressState l b = Inr s \<and> decompressState l (PText s) = Inr (Board b)"
proof -
  from assms obtain json e where json: "json_stringify l (Board b) = Inr json"
    and parse: "json_parse l json = Inr (Board b)" and notb64: "atob l json = Inl e"
    and b64: "\<And>binaryString s. btoa l binaryString = Inr s \<Longrightarrow> atob l s = Inr binaryString"
    and gz: "\<And>text z. pako_gzip l text = Inr z \<Longrightarrow> \<exists>u. pako_ungzip l z = Inr u \<and> text_decode l u = text"
    unfolding libs_round_trip_def by blast
  have plain: "decompressState l (PText json) = Inr (Board b)"
    using parse notb64
    by (simp add: decompressState_def gunzip_payload_def try_catch_def then_do_def)
  let ?chain = "then_do (pako_gzip l json) (\<lambda>compressed.
                  then_do (fromCharCode_apply l compressed) (\<lambda>binaryString. btoa l binaryString))"
  have comp: "compressState l b = try_catch ?chain (\<lambda>error. Inr json)"
    using json by (simp add: compressState_def then_do_def try_catch_def)
  show ?thesis
  proof (cases ?chain)
    case (Inl err)
    with comp have "compressState l b = Inr json" by (simp add: try_catch_def)
    with plain show ?thesis by blast
  next
    case (Inr s)
    then obtain z where z: "pako_gzip l json = Inr z"
      and fits: "\<not> length z > max_arguments l"
      and enc: "btoa l (map (\<lambda>b. char_of (unat b)) z) = Inr s"
      by (auto simp: then_do_def fromCharCode_apply_def split: sum.splits if_splits)
    from gz [OF z] obtain u where u: "pako_ungzip l z = Inr u" "text_decode l u = json" by blast
    have "gunzip_payload l s = Inr (Board b)"
      using b64 [OF enc] u parse
      by (simp add: gunzip_payload_def then_do_def char_codes_inverse)
    then have "decompressState l (PText s) = Inr (Board b)"
      by (simp add: decompressState_def try_catch_def)
    moreover from comp Inr have "compressState l b = Inr s" by (simp add: try_catch_def)
    ultimately show ?thesis by blast
  qed
qed

lemma length_char_codes [simp]: "length (char_codes s) = length s"
  by (simp add: char_codes_def)

lemma ex_boards_differ:
  "ex_import \<noteq> ex_legacy" "to_stored ex_board1 \<noteq> ex_legacy" "to_stored ex_board1 \<noteq> ex_import"
  by (simp_all add: to_stored_def ex_legacy_def ex_import_def ex_board1_def addTask_def
      new_task_def defaultState_def to_stored_task_def)

lemma ex_libs_round_trip:
  "libs_round_trip ex_libs (to_stored ex_board1)"
  by (auto simp: libs_round_trip_def ex_libs_def ex_stringify_def ex_parse_def text_of_codes
      ex_boards_differ)

lemma import_accepts_old_tasks:
  \<comment> \<open>\<open>importBoard\<close> lets the file through: it has columns, tasks and tags\<close>
  "importBoard ex_libs (char_codes ''{import}'') = Some ex_import"
  by (simp add: importBoard_def then_do_def ex_libs_def ex_parse_def text_of_codes ex_import_def)

lemma undefined_status_not_populated:
  \<comment> \<open>a board of the store after \<open>updateTask('task-1', {status: undefined})\<close>\<close>
  "\<not> fully_populated
       (to_stored (updateTask (\<lambda>i. 5) ''task-1'' (no_updates\<lparr>u_status := Some None\<rparr>) ex_board1))"
  by (simp add: fully_populated_def to_stored_def to_stored_task_def ex_board1_def addTask_def
      new_task_def defaultState_def updateTask_def map_indexed_def update_one_def
      merge_updates_def override_def no_updates_def Let_def)

text \<open>
  C1 (as amended): when the libraries invert one another on the payload of a board,
  decompressState returns from the text written by compressState the board itself, with
  nothing filled in; so the result is the migrated board exactly when no field that the
  migration fills in is missing. A board that misses such a field reaches compressState
  unmigrated through importBoardState.
\<close>
theorem codec_round_trip:
  assumes "libs_round_trip l b"
  shows "\<exists>s. compressState l b = Inr s \<and>
             decompressState l (PText s) = Inr (Board b) \<and>
             (decompressState l (PText s) = Inr (Board (migrateState b))) = fully_populated b"
proof -
  from compress_then_decompress [OF assms] obtain s
    where s: "compressState l b = Inr s" "decompressState l (PText s) = Inr (Board b)" by blast
  have "(decompressState l (PText s) = Inr (Board (migrateState b))) = (migrateState b = b)"
    unfolding s(2) by auto
  with s show ?thesis by (simp add: migrate_fixpoint)
qed

theorem codec_round_trip_witness:
  "fully_populated (to_stored ex_board1) \<and>
   compressState ex_libs (to_stored ex_board1) = Inr ''={board1}'' \<and>
   decompressState ex_libs (PText ''={board1}'')
     = Inr (Board (migrateState (to_stored ex_board1)))"
proof -
  have full: "fully_populated (to_stored ex_board1)"
    by (simp add: fully_populated_def to_stored_def to_stored_task_def ex_board1_def
        addTask_def new_task_def defaultState_def)
  have c: "compressState ex_libs (to_stored ex_board1) = Inr ''={board1}''"
    by (simp add: compressState_def try_catch_def then_do_def fromCharCode_apply_def
        ex_libs_def ex_stringify_def text_of_codes ex_boards_differ)
  from codec_round_trip [OF ex_libs_round_trip] c full
  show ?thesis by auto
qed

theorem codec_round_trip_counterexample:
  "importBoard ex_libs (char_codes ''{import}'') = Some ex_import \<and>
   compressState ex_libs ex_import = Inr ''={import}'' \<and>
   decompressState ex_libs (PText ''={import}'') = Inr (Board ex_import) \<and>
   decompressState ex_libs (PText ''={import}'') \<noteq> Inr (Board (migrateState ex_import))"
proof -
  have c: "compressState ex_libs ex_import = Inr ''={import}''"
    by (simp add: compressState_def try_catch_def then_do_def fromCharCode_apply_def
        ex_libs_def ex_stringify_def text_of_codes ex_boards_differ)
  have d: "decompressState ex_libs (PText ''={import}'') = Inr (Board ex_import)"
    by (simp add: decompressState_def gunzip_payload_def try_catch_def then_do_def ex_libs_def
        ex_parse_def text_of_codes)
  have "\<not> fully_populated ex_import" by (simp add: fully_populated_def ex_import_def)
  then have m: "migrateState ex_import \<noteq> ex_import" by (simp add: migrate_fixpoint)
  from import_accepts_old_tasks c d m show ?thesis by auto
qed

section \<open>The checksum and a change of one character\<close>

lemma hash_step_eq: "hash_step h c = 31 * h + of_nat (of_char c)"
  by (simp add: hash_step_def push_bit_eq_mult)

lemma times_31_inj:
  fixes a b :: "32 word"
  assumes "31 * a = 31 * b"
  shows "a = b"
proof -
  have inv: "(3186588639 :: 32 word) * 31 = 1" by simp
  have "a = (3186588639 * 31) * a" by (simp only: inv mult_1)
  also have "\<dots> = 3186588639 * (31 * a)" by (simp only: mult.assoc)
  also have "\<dots> = 3186588639 * (31 * b)" by (simp only: assms)
  also have "\<dots> = (3186588639 * 31) * b" by (simp only: mult.assoc)
  also have "\<dots> = b" by (simp only: inv mult_1)
  finally show ?thesis .
qed

lemma hash_step_inj: "hash_step a c = hash_step b c \<Longrightarrow> a = b"
  by (simp add: hash_step_eq times_31_inj)

lemma foldl_hash_step_inj:
  "foldl hash_step a s = foldl hash_step b s \<Longrightarrow> a = b"
proof (induction s arbitrary: a b)
  case Nil
  then show ?case by simp
next
  case (Cons c s)
  then have "hash_step a c = hash_step b c" by simp
  then show ?case by (rule hash_step_inj)
qed

lemma char_code_inj:
  assumes "(of_nat (of_char c) :: 32 word) = of_nat (of_char c')"
  shows "c = c'"
proof -
  have lt: "take_bit 32 n = n" if "n < 256" for n :: nat
  proof -
    have "(256 :: nat) \<le> 2 ^ 32" by simp
    with that have "n < 2 ^ 32" by (rule less_le_trans)
    then show ?thesis by (rule take_bit_nat_eq_self)
  qed
  from assms have "take_bit LENGTH(32) (of_char c :: nat) = take_bit LENGTH(32) (of_char c' :: nat)"
    by (simp only: word_of_nat_eq_iff)
  then have "take_bit 32 (of_char c :: nat) = take_bit 32 (of_char c' :: nat)"
    by simp
  moreover have "take_bit 32 (of_char c :: nat) = of_char c" by (rule lt) simp
  moreover have "take_bit 32 (of_char c' :: nat) = of_char c'" by (rule lt) simp
  ultimately have "(of_char c :: nat) = of_char c'" by (simp only:)
  then show ?thesis by simp
qed

lemma hash32_one_changed:
  assumes "c \<noteq> c'"
  shows "hash32 (p @ c # s) \<noteq> hash32 (p @ c' # s)"
proof
  assume "hash32 (p @ c # s) = hash32 (p @ c' # s)"
  then have "hash_step (foldl hash_step 0 p) c = hash_step (foldl hash_step 0 p) c'"
    by (simp add: hash32_def foldl_hash_step_inj)
  then have "(of_nat (of_char c) :: 32 word) = of_nat (of_char c')"
    by (simp add: hash_step_eq)
  with assms show False by (simp add: char_code_inj)
qed

lemma one_difference:
  assumes "length d = length d'" "length (filter (\<lambda>(a, b). a \<noteq> b) (zip d d')) = 1"
  shows "\<exists>p c c' s. d = p @ c # s \<and> d' = p @ c' # s \<and> c \<noteq> c'"
  using assms
proof (induction d d' rule: list_induct2)
  case Nil
  then show ?case by simp
next
  case (Cons x xs y ys)
  show ?case
  proof (cases "x = y")
    case True
    with Cons.prems have "length (filter (\<lambda>(a, b). a \<noteq> b) (zip xs ys)) = 1" by simp
    from Cons.IH [OF this] obtain p c c' s
      where "xs = p @ c # s" "ys = p @ c' # s" "c \<noteq> c'" by blast
    with True have "x # xs = (x # p) @ c # s \<and> y # ys = (x # p) @ c' # s \<and> c \<noteq> c'" by simp
    then show ?thesis by blast
  next
    case False
    with Cons.prems have "filter (\<lambda>(a, b). a \<noteq> b) (zip xs ys) = []" by simp
    then have "\<forall>(a, b) \<in> set (zip xs ys). a = b" by (auto simp: filter_empty_conv)
    with Cons.hyps have "xs = ys"
      by (auto simp: list_eq_iff_zip_eq)
    with False have "x # xs = [] @ x # xs \<and> y # ys = [] @ y # xs \<and> x \<noteq> y" by simp
    then show ?thesis by blast
  qed
qed

lemma abs_sint_minus:
  fixes b :: "32 word"
  shows "\<bar>sint (- b)\<bar> = \<bar>sint b\<bar>"
proof (cases "sint b = - (2 ^ 31)")
  case True
  have "sint (- b) = signed_take_bit 31 (- sint b)" by (simp add: sint_word_minus)
  also have "\<dots> = signed_take_bit 31 (2 ^ 31)" using True by simp
  also have "\<dots> = - (2 ^ 31)" by (simp add: signed_take_bit_eq_take_bit_shift)
  finally show ?thesis using True by simp
next
  case False
  have "- (2 ^ 31) \<le> sint b" "sint b < 2 ^ 31"
    using sint_ge [of b] sint_lt [of b] by simp_all
  with False have "- (2 ^ 31) \<le> - sint b" "- sint b < 2 ^ 31" by simp_all
  then have "signed_take_bit 31 (- sint b) = - sint b"
    by (rule signed_take_bit_int_eq_self)
  then have "sint (- b) = - sint b" by (simp add: sint_word_minus)
  then show ?thesis by simp
qed

lemma abs_sint_eq_iff:
  fixes a b :: "32 word"
  shows "(\<bar>sint a\<bar> = \<bar>sint b\<bar>) = (a = b \<or> a = - b)"
proof
  assume "\<bar>sint a\<bar> = \<bar>sint b\<bar>"
  then consider "sint a = sint b" | "sint a = - sint b" by linarith
  then show "a = b \<or> a = - b"
  proof cases
    case 1
    then show ?thesis by (simp add: word_eq_iff_signed [where 'a = int])
  next
    case 2
    then have "(word_of_int (sint a) :: 32 word) = word_of_int (- sint b)" by simp
    then have "a = - b" by simp
    then show ?thesis ..
  qed
next
  assume "a = b \<or> a = - b"
  then show "\<bar>sint a\<bar> = \<bar>sint b\<bar>" by (auto simp: abs_sint_minus)
qed

lemma generateHash_eq_iff:
  "(generateHash d' = generateHash d) = (hash32 d' = hash32 d \<or> hash32 d' = - hash32 d)"
proof -
  have "(generateHash d' = generateHash d) = (nat \<bar>sint (hash32 d')\<bar> = nat \<bar>sint (hash32 d)\<bar>)"
    unfolding generateHash_def by (auto dest: to_digits_inj [rotated 2])
  also have "\<dots> = (\<bar>sint (hash32 d')\<bar> = \<bar>sint (hash32 d)\<bar>)" by auto
  finally show ?thesis by (simp only: abs_sint_eq_iff)
qed

lemma corrupt_tier_empty:
  assumes "\<not> verifyHash d' h"
  shows "from_indexeddb l (st\<lparr>idb_backup := Found \<lparr>backup_data = d', backup_timestamp = t,
                                                  backup_hash = h\<rparr>\<rparr>) = None"
    and "from_text_tier l src (Found d') (Found h) = None"
  using assms by (simp_all add: from_indexeddb_def from_text_tier_def)

lemma absent_tier_empty:
  "from_indexeddb l (st\<lparr>idb_backup := Absent\<rparr>) = None"
  "from_text_tier l src Absent x = None"
  by (simp_all add: from_indexeddb_def from_text_tier_def)

lemma from_indexeddb_other_fields:
  "from_indexeddb l (st\<lparr>ls_data := x\<rparr>) = from_indexeddb l st"
  "from_indexeddb l (st\<lparr>ls_hash := y\<rparr>) = from_indexeddb l st"
  "from_indexeddb l (st\<lparr>cookie_data := x\<rparr>) = from_indexeddb l st"
  "from_indexeddb l (st\<lparr>cookie_hash := y\<rparr>) = from_indexeddb l st"
  by (simp_all add: from_indexeddb_def)

lemma skipped_tiers:
  assumes "\<not> verifyHash d' h"
  shows "attemptRecovery l (st\<lparr>idb_backup := Found \<lparr>backup_data = d', backup_timestamp = t,
                                                   backup_hash = h\<rparr>\<rparr>)
           = attemptRecovery l (st\<lparr>idb_backup := Absent\<rparr>)"
    and "attemptRecovery l (st\<lparr>ls_data := Found d', ls_hash := Found h\<rparr>)
           = attemptRecovery l (st\<lparr>ls_data := Absent\<rparr>)"
    and "attemptRecovery l (st\<lparr>cookie_data := Found d', cookie_hash := Found h\<rparr>)
           = attemptRecovery l (st\<lparr>cookie_data := Absent\<rparr>)"
  by (simp_all add: attemptRecovery_def corrupt_tier_empty [OF assms] absent_tier_empty
      from_indexeddb_other_fields cong: option.case_cong)

text \<open>
  C2 (as amended): when the stored hash is generateHash(data) and data' differs from
  data in exactly one character, the 32-bit values that the two hashes are made from
  differ, and verifyHash(data', hash) is true exactly when one value is the negative
  of the other (Math.abs maps both to the same text). In every other case verifyHash is
  false and attemptRecovery goes on as if the tier were empty, whichever of the three
  tiers holds the payload.
\<close>
theorem single_change_detected:
  assumes "differs_in_one d d'"
  shows "hash32 d' \<noteq> hash32 d \<and>
         verifyHash d' (generateHash d) = (hash32 d' = - hash32 d) \<and>
         (hash32 d' \<noteq> - hash32 d \<longrightarrow>
            attemptRecovery l (st\<lparr>idb_backup := Found \<lparr>backup_data = d', backup_timestamp = t,
                                                          backup_hash = generateHash d\<rparr>\<rparr>)
              = attemptRecovery l (st\<lparr>idb_backup := Absent\<rparr>) \<and>
            attemptRecovery l (st\<lparr>ls_data := Found d', ls_hash := Found (generateHash d)\<rparr>)
              = attemptRecovery l (st\<lparr>ls_data := Absent\<rparr>) \<and>
            attemptRecovery l (st\<lparr>cookie_data := Found d', cookie_hash := Found (generateHash d)\<rparr>)
              = attemptRecovery l (st\<lparr>cookie_data := Absent\<rparr>))"
proof -
  from assms obtain p c c' s where "d = p @ c # s" "d' = p @ c' # s" "c \<noteq> c'"
    using one_difference [of d d'] by (auto simp: differs_in_one_def)
  then have ne: "hash32 d' \<noteq> hash32 d"
    using hash32_one_changed [of c' c p s] by simp
  have v: "verifyHash d' (generateHash d) = (hash32 d' = - hash32 d)"
    using ne by (simp add: verifyHash_def generateHash_eq_iff)
  have skip: "attemptRecovery l (st\<lparr>idb_backup := Found \<lparr>backup_data = d', backup_timestamp = t,
                                                          backup_hash = generateHash d\<rparr>\<rparr>)
              = attemptRecovery l (st\<lparr>idb_backup := Absent\<rparr>) \<and>
            attemptRecovery l (st\<lparr>ls_data := Found d', ls_hash := Found (generateHash d)\<rparr>)
              = attemptRecovery l (st\<lparr>ls_data := Absent\<rparr>) \<and>
            attemptRecovery l (st\<lparr>cookie_data := Found d', cookie_hash := Found (generateHash d)\<rparr>)
              = attemptRecovery l (st\<lparr>cookie_data := Absent\<rparr>)"
    if "hash32 d' \<noteq> - hash32 d"
  proof -
    from that v have nv: "\<not> verifyHash d' (generateHash d)" by simp
    show ?thesis
      by (intro conjI) (rule skipped_tiers [OF nv])+
  qed
  from ne v skip show ?thesis by blast
qed

lemma ex_data_hashes:
  "hash32 ex_data = - 2017028235"
  "hash32 ex_data_changed = 2017028235"
  "hash32 ex_data_damaged = - 387062380"
  by code_simp+

lemma ex_data_differs:
  "differs_in_one ex_data ex_data_changed" "differs_in_one ex_data ex_data_damaged"
  by code_simp+

lemma ex_data_distinct: "ex_data_changed \<noteq> ex_data" "ex_data \<noteq> []"
  by code_simp+

lemma ex_checksum:
  "generateHash ex_data = ''7839688b''" "generateHash ex_data_damaged = ''17121a6c''"
  by (simp_all add: generateHash_def ex_data_hashes to_digits.simps digit_char_def)

lemma ex_checksum_changed: "generateHash ex_data_changed = ''7839688b''"
proof -
  have "generateHash ex_data_changed = generateHash ex_data"
    by (simp add: generateHash_eq_iff ex_data_hashes)
  then show ?thesis by (simp only: ex_checksum)
qed

lemma ex_backup_written:
  \<comment> \<open>the record that \<open>createRecoveryBackup\<close> writes for the board\<close>
  "backupData payload_libs now (to_stored ex_backup_board)
     = Inr \<lparr>backup_data = ex_data, backup_timestamp = now, backup_hash = ''7839688b''\<rparr>"
proof -
  have len: "length ex_gzip = 284" by (simp add: ex_gzip_def)
  show ?thesis
    by (simp add: backupData_def then_do_def payload_libs_def fromCharCode_apply_def len
        char_codes_inverse ex_checksum)
qed

lemma ex_backup_read:
  "decompressBackup payload_libs ex_data = Some (to_stored ex_backup_board)"
  "decompressBackup payload_libs ex_data_changed = Some (to_stored ex_backup_board)"
proof -
  have tg: "sb_tags (to_stored ex_backup_board) \<noteq> None" by (simp add: to_stored_def)
  show "decompressBackup payload_libs ex_data = Some (to_stored ex_backup_board)"
    using tg
    by (simp add: decompressBackup_def gunzip_payload_def then_do_def payload_libs_def
        char_codes_inverse text_of_codes)
  show "decompressBackup payload_libs ex_data_changed = Some (to_stored ex_backup_board)"
    using tg ex_data_distinct(1)
    by (simp add: decompressBackup_def gunzip_payload_def then_do_def payload_libs_def
        char_codes_inverse text_of_codes)
qed

theorem single_change_detected_witness:
  "differs_in_one ex_data ex_data_damaged \<and>
   generateHash ex_data = ''7839688b'' \<and> generateHash ex_data_damaged = ''17121a6c'' \<and>
   \<not> verifyHash ex_data_damaged (generateHash ex_data) \<and>
   attemptRecovery payload_libs (ex_backup_stores ex_data_damaged)
     = recovered_from LocalStorage (to_stored ex_backup_board)"
proof -
  let ?st = "ex_backup_stores ex_data_damaged"
  have n: "hash32 ex_data_damaged \<noteq> - hash32 ex_data" by (simp add: ex_data_hashes)
  have st: "?st = ?st\<lparr>idb_backup := Found \<lparr>backup_data = ex_data_damaged,
              backup_timestamp = 1700092915254, backup_hash = generateHash ex_data\<rparr>\<rparr>"
    by (simp add: ex_backup_stores_def ex_checksum)
  have "from_text_tier payload_libs LocalStorage (ls_data ?st) (ls_hash ?st)
          = Some (recovered_from LocalStorage (to_stored ex_backup_board))"
    by (simp add: from_text_tier_def ex_backup_stores_def verifyHash_def ex_checksum
        ex_backup_read ex_data_distinct)
  then have rest: "attemptRecovery payload_libs (?st\<lparr>idb_backup := Absent\<rparr>)
                = recovered_from LocalStorage (to_stored ex_backup_board)"
    by (simp add: attemptRecovery_def absent_tier_empty cong: option.case_cong)
  from single_change_detected [OF ex_data_differs(2), where l = payload_libs and st = ?st
      and t = 1700092915254] n
  have "\<not> verifyHash ex_data_damaged (generateHash ex_data)"
    and "attemptRecovery payload_libs (?st\<lparr>idb_backup := Found \<lparr>backup_data = ex_data_damaged,
              backup_timestamp = 1700092915254, backup_hash = generateHash ex_data\<rparr>\<rparr>)
          = attemptRecovery payload_libs (?st\<lparr>idb_backup := Absent\<rparr>)"
    by simp_all
  with st rest ex_data_differs(2) ex_checksum show ?thesis by simp
qed

theorem single_change_detected_counterexample:
  "backupData payload_libs 1700092915254 (to_stored ex_backup_board)
     = Inr \<lparr>backup_data = ex_data, backup_timestamp = 1700092915254,
            backup_hash = ''7839688b''\<rparr> \<and>
   differs_in_one ex_data ex_data_changed \<and>
   verifyHash ex_data_changed ''7839688b'' \<and>
   attemptRecovery payload_libs (ex_backup_stores ex_data_changed)
     = recovered_from IndexedDB (to_stored ex_backup_board)"
proof -
  have v: "verifyHash ex_data_changed ''7839688b''"
    by (simp add: verifyHash_def ex_checksum_changed)
  have "from_indexeddb payload_libs (ex_backup_stores ex_data_changed)
          = Some (recovered_from IndexedDB (to_stored ex_backup_board))"
    using v by (simp add: from_indexeddb_def ex_backup_stores_def ex_backup_read)
  then have "attemptRecovery payload_libs (ex_backup_stores ex_data_changed)
               = recovered_from IndexedDB (to_stored ex_backup_board)"
    by (simp add: attemptRecovery_def)
  with ex_backup_written ex_data_differs(1) v show ?thesis by simp
qed

end
